theory Spec2Isabelle
  imports Main
begin

section \<open>Data model\<close>

text \<open>
  The six role classes of \<^verbatim>\<open>Roles.hpp\<close>. The source compares the string returned by
  the virtual \<^verbatim>\<open>role()\<close>; each class returns its own name, so the comparison
  \<^verbatim>\<open>role() == "Judge"\<close> is equality of the tag.
\<close>

datatype role = Governor | Spy | Baron | General | Judge | Merchant

text \<open>The exception classes of \<^verbatim>\<open>Exceptions.hpp\<close>, each carrying its message.\<close>

datatype exn =
    GameException string
  | IllegalMoveException string
  | NotEnoughCoinsException string
  | IllegalTargetException string
  | NotYourTurnException string
  | TooManyPlayersException string
  | PlayerNotFoundException string

text \<open>
  \<^verbatim>\<open>class Player\<close> (fields of \<^verbatim>\<open>Player.hpp\<close>). The weak back-reference to the game
  is not a field here: the game is the state value that every operation receives, so
  locking the reference always succeeds and the branches \<^verbatim>\<open>"Game no longer exists"\<close>
  cannot be taken. The \<^verbatim>\<open>int\<close> fields hold 32-bit values; they are integers here, and
  every unchecked \<^verbatim>\<open>+=\<close> and \<^verbatim>\<open>-=\<close> of the source goes through \<open>int32\<close> below.
\<close>

record player =
  name :: string
  coins :: int
  active :: bool
  sanctioned :: bool
  own_last_arrested_player :: string
  arrest_blocked :: bool
  role :: role

text \<open>
  \<^verbatim>\<open>class Game\<close> (fields of \<^verbatim>\<open>Game.hpp\<close>). The roster holds the player objects
  themselves, one per seat and none of them null; a \<^verbatim>\<open>shared_ptr<Player>\<close> argument is
  \<open>None\<close> (null) or \<open>Some i\<close>, the seat index of the object in the roster, a
  \<^verbatim>\<open>Player&\<close> is a seat index, and pointer equality is equality of seats. The roster
  only grows: the one function that removes seats, \<^verbatim>\<open>cleanup_inactive_players\<close>, is
  never called.
\<close>

record game =
  player_list :: "player list"
  current_turn :: nat
  game_started :: bool
  treasury :: int
  last_arrested_player :: string
  actions_remaining :: int

text \<open>
  What a call does: it returns with a new state, throws an exception in the state reached
  at the throw, or never returns.
\<close>

datatype outcome = Returns game | Throws exn game | Loops

fun then_do :: "outcome \<Rightarrow> (game \<Rightarrow> outcome) \<Rightarrow> outcome" where
  "then_do (Returns g) f = f g"
| "then_do (Throws e g) f = Throws e g"
| "then_do Loops f = Loops"

section \<open>Machine integers\<close>

text \<open>
  The value a 32-bit \<^verbatim>\<open>int\<close> holds after an addition or subtraction whose exact result
  is \<open>x\<close>: two's complement wrap-around, as the compiled program computes it.
\<close>

definition int32 :: "int \<Rightarrow> int" where
  "int32 x = (x + 2147483648) mod 4294967296 - 2147483648"

section \<open>Game.cpp: queries and treasury\<close>

text \<open>
  \<^verbatim>\<open>remove_from_treasury\<close> subtracts only under its guards
  \<open>0 \<le> amount \<le> treasury\<close>, so its difference lies between 0 and the old balance and
  needs no wrap-around; \<^verbatim>\<open>add_to_treasury\<close> adds unchecked.
\<close>

definition Game :: game where
  "Game = \<lparr>player_list = [], current_turn = 0, game_started = False, treasury = 50,
           last_arrested_player = [], actions_remaining = 1\<rparr>"

definition get_current_player :: "game \<Rightarrow> nat option" where
  "get_current_player g = (if player_list g = [] then None else Some (current_turn g))"

definition is_player_turn :: "game \<Rightarrow> nat \<Rightarrow> bool" where
  "is_player_turn g p = (if player_list g = [] then False else current_turn g = p)"

definition validate_game_state :: "game \<Rightarrow> exn option" where
  "validate_game_state g =
     (if \<not> game_started g then Some (GameException ''Game has not started'') else None)"

definition add_to_treasury :: "game \<Rightarrow> int \<Rightarrow> outcome" where
  "add_to_treasury g amount =
     (if amount < 0 then Throws (GameException ''Cannot add negative amount to treasury'') g
      else Returns (g\<lparr>treasury := int32 (treasury g + amount)\<rparr>))"

definition remove_from_treasury :: "game \<Rightarrow> int \<Rightarrow> outcome" where
  "remove_from_treasury g amount =
     (if amount < 0 then Throws (GameException ''Cannot remove negative amount from treasury'') g
      else if treasury g < amount then Throws (GameException ''Not enough coins in treasury'') g
      else Returns (g\<lparr>treasury := treasury g - amount\<rparr>))"

section \<open>ActionValidator.cpp\<close>

record ValidationResult =
  isValid :: bool
  errorMessage :: string

definition valid :: ValidationResult where
  "valid = \<lparr>isValid = True, errorMessage = []\<rparr>"

definition invalid :: "string \<Rightarrow> ValidationResult" where
  "invalid message = \<lparr>isValid = False, errorMessage = message\<rparr>"

text \<open>\<^verbatim>\<open>std::to_string\<close> on an \<^verbatim>\<open>int\<close>: the decimal digits, with a sign.\<close>

definition digit_char :: "nat \<Rightarrow> char" where
  "digit_char d = ''0123456789'' ! d"

function string_of_nat :: "nat \<Rightarrow> string" where
  "string_of_nat n =
     (if n < 10 then [digit_char n] else string_of_nat (n div 10) @ [digit_char (n mod 10)])"
  by pat_completeness auto
termination
  by (relation "measure id") auto

definition to_string :: "int \<Rightarrow> string" where
  "to_string i = (if i < 0 then CHR ''-'' # string_of_nat (nat (- i)) else string_of_nat (nat i))"

text \<open>\<open>found s pat\<close> is \<^verbatim>\<open>s.find(pat) != std::string::npos\<close>.\<close>

fun starts_with :: "string \<Rightarrow> string \<Rightarrow> bool" where
  "starts_with s [] = True"
| "starts_with [] (c # pat) = False"
| "starts_with (x # s) (c # pat) = (x = c \<and> starts_with s pat)"

fun found :: "string \<Rightarrow> string \<Rightarrow> bool" where
  "found [] pat = (pat = [])"
| "found (x # s) pat = (starts_with (x # s) pat \<or> found s pat)"

definition actionCosts :: "(string \<times> int) list" where
  "actionCosts =
     [(''Gather'', 0), (''Tax'', 0), (''Bribe'', 4), (''Arrest'', 0), (''Coup'', 7),
      (''Investigate'', 0), (''Block Arrest'', 0), (''End Turn'', 0), (''Sanction'', 3),
      (''Invest'', 3)]"

definition getActionCost :: "string \<Rightarrow> int" where
  "getActionCost action = (case map_of actionCosts action of Some c \<Rightarrow> c | None \<Rightarrow> 0)"

definition targetRequiredActions :: "string list" where
  "targetRequiredActions = [''Arrest'', ''Sanction'', ''Coup'', ''Investigate'', ''Block Arrest'']"

definition requiresTarget :: "string \<Rightarrow> bool" where
  "requiresTarget action = (action \<in> set targetRequiredActions)"

definition validateCoins :: "game \<Rightarrow> string \<Rightarrow> nat \<Rightarrow> ValidationResult" where
  "validateCoins g action p =
     (let requiredCoins = getActionCost action in
      if action = ''Sanction'' \<and> requiredCoins = 3 then
        (if coins (player_list g ! p) < 3 then invalid ''Need at least 3 coins for sanction''
         else valid)
      else if requiredCoins > 0 \<and> coins (player_list g ! p) < requiredCoins then
        invalid (''Need '' @ to_string requiredCoins @ '' coins for '' @ action)
      else valid)"

definition validatePlayerState :: "game \<Rightarrow> nat \<Rightarrow> ValidationResult" where
  "validatePlayerState g p =
     (if \<not> active (player_list g ! p) then invalid ''Player is not active'' else valid)"

definition validateTarget :: "game \<Rightarrow> string \<Rightarrow> nat \<Rightarrow> nat option \<Rightarrow> ValidationResult" where
  "validateTarget g action actor target =
     (case target of
        None \<Rightarrow> invalid (''Target required for '' @ action)
      | Some t \<Rightarrow>
          if \<not> active (player_list g ! t) then invalid ''Target player is not active''
          else if actor = t then invalid (''Cannot target yourself with '' @ action)
          else valid)"

definition what :: "exn \<Rightarrow> string" where
  "what e = (case e of
      GameException m \<Rightarrow> m | IllegalMoveException m \<Rightarrow> m | NotEnoughCoinsException m \<Rightarrow> m
    | IllegalTargetException m \<Rightarrow> m | NotYourTurnException m \<Rightarrow> m
    | TooManyPlayersException m \<Rightarrow> m | PlayerNotFoundException m \<Rightarrow> m)"

definition validateGameState :: "game \<Rightarrow> nat \<Rightarrow> ValidationResult" where
  "validateGameState g p =
     (if \<not> is_player_turn g p then invalid ''Not your turn''
      else case validate_game_state g of Some e \<Rightarrow> invalid (what e) | None \<Rightarrow> valid)"

definition validateRoleSpecificRequirements :: "game \<Rightarrow> string \<Rightarrow> nat \<Rightarrow> ValidationResult" where
  "validateRoleSpecificRequirements g action p =
     (if (action = ''Gather'' \<or> action = ''Tax'') \<and> sanctioned (player_list g ! p) then
        invalid ''You are under sanctions and cannot gather or tax''
      else if action = ''Arrest'' \<and> arrest_blocked (player_list g ! p) then
        invalid ''Your arrest ability is blocked this turn''
      else if action = ''Invest'' \<and> role (player_list g ! p) \<noteq> Baron then
        invalid ''Only Baron can invest''
      else if action = ''Investigate'' \<and> role (player_list g ! p) \<noteq> Spy then
        invalid ''Only Spy can investigate''
      else if action = ''Block Arrest'' \<and> role (player_list g ! p) \<noteq> Spy then
        invalid ''Only Spy can block arrest abilities''
      else valid)"

definition getValidationResult ::
    "game \<Rightarrow> string \<Rightarrow> nat option \<Rightarrow> nat option \<Rightarrow> ValidationResult" where
  "getValidationResult g action actor target =
     (case actor of
        None \<Rightarrow> invalid ''No actor specified''
      | Some a \<Rightarrow>
          if coins (player_list g ! a) \<ge> 10 \<and> action \<noteq> ''Coup'' \<and> action \<noteq> ''End Turn'' then
            invalid ''Must perform coup when having 10 or more coins''
          else if \<not> isValid (validatePlayerState g a) then validatePlayerState g a
          else if \<not> isValid (validateGameState g a) then validateGameState g a
          else if \<not> isValid (validateCoins g action a) then validateCoins g action a
          else if \<not> isValid (validateRoleSpecificRequirements g action a) then
            validateRoleSpecificRequirements g action a
          else if requiresTarget action \<and> \<not> isValid (validateTarget g action a target) then
            validateTarget g action a target
          else valid)"

definition isActionAvailable :: "game \<Rightarrow> string \<Rightarrow> nat option \<Rightarrow> bool" where
  "isActionAvailable g action player =
     (case player of None \<Rightarrow> False
      | Some p \<Rightarrow> isValid (getValidationResult g action (Some p) None))"

definition isActionAvailableForButton :: "game \<Rightarrow> string \<Rightarrow> nat option \<Rightarrow> bool" where
  "isActionAvailableForButton g action player =
     (case player of
        None \<Rightarrow> False
      | Some p \<Rightarrow>
          if coins (player_list g ! p) \<ge> 10 \<and> action \<noteq> ''Coup'' \<and> action \<noteq> ''End Turn'' then False
          else if \<not> isValid (validatePlayerState g p) then False
          else if \<not> isValid (validateGameState g p) then False
          else if \<not> isValid (validateCoins g action p) then False
          else if \<not> isValid (validateRoleSpecificRequirements g action p) then False
          else True)"

text \<open>
  \<^verbatim>\<open>validateActionExecution\<close>: \<open>None\<close> when nothing is thrown, otherwise the exception,
  whose class is chosen by searching the message.
\<close>

definition validateActionExecution ::
    "game \<Rightarrow> string \<Rightarrow> nat option \<Rightarrow> nat option \<Rightarrow> exn option" where
  "validateActionExecution g action actor target =
     (let result = getValidationResult g action actor target in
      if \<not> isValid result then
        (if found (errorMessage result) ''coins'' then
           Some (NotEnoughCoinsException (errorMessage result))
         else if found (errorMessage result) ''turn'' then
           Some (NotYourTurnException (errorMessage result))
         else if found (errorMessage result) ''target'' \<or> found (errorMessage result) ''Target'' then
           Some (IllegalTargetException (errorMessage result))
         else if found (errorMessage result) ''game'' \<or> found (errorMessage result) ''Game'' then
           Some (GameException (errorMessage result))
         else Some (IllegalMoveException (errorMessage result)))
      else None)"

section \<open>Game.hpp and Game.cpp: roster, action counter and turn order\<close>

definition validate_player_count :: "game \<Rightarrow> exn option" where
  "validate_player_count g =
     (if length (player_list g) \<ge> 6 then Some (TooManyPlayersException ''Maximum 6 players allowed'')
      else None)"

definition add_player :: "game \<Rightarrow> player \<Rightarrow> outcome" where
  "add_player g p =
     (case validate_player_count g of
        Some e \<Rightarrow> Throws e g
      | None \<Rightarrow> Returns (g\<lparr>player_list := player_list g @ [p]\<rparr>))"

definition start_game :: "game \<Rightarrow> outcome" where
  "start_game g =
     (if length (player_list g) < 2 then Throws (GameException ''Not enough players to start game'') g
      else Returns (g\<lparr>game_started := True\<rparr>))"

definition set_last_arrested_player :: "game \<Rightarrow> string \<Rightarrow> game" where
  "set_last_arrested_player g n = g\<lparr>last_arrested_player := n\<rparr>"

definition add_extra_actions :: "game \<Rightarrow> int \<Rightarrow> game" where
  "add_extra_actions g count = g\<lparr>actions_remaining := int32 (actions_remaining g + count)\<rparr>"

text \<open>The decrement runs only on a positive counter, so it cannot leave the range.\<close>

definition consume_action :: "game \<Rightarrow> game" where
  "consume_action g =
     (if actions_remaining g > 0 then g\<lparr>actions_remaining := actions_remaining g - 1\<rparr> else g)"

definition start_turn_actions :: "game \<Rightarrow> game" where
  "start_turn_actions g = g\<lparr>actions_remaining := 1\<rparr>"

text \<open>Field updates of the player object in seat \<open>p\<close>.\<close>

definition add_coins :: "game \<Rightarrow> nat \<Rightarrow> int \<Rightarrow> game" where
  "add_coins g p amount =
     g\<lparr>player_list :=
         (player_list g)[p := (player_list g ! p)\<lparr>coins := int32 (coins (player_list g ! p) + amount)\<rparr>]\<rparr>"

definition remove_coins :: "game \<Rightarrow> nat \<Rightarrow> int \<Rightarrow> outcome" where
  "remove_coins g p amount =
     (if coins (player_list g ! p) < amount then
        Throws (NotEnoughCoinsException ''Not enough coins for action'') g
      else Returns (g\<lparr>player_list :=
             (player_list g)[p := (player_list g ! p)
                                  \<lparr>coins := int32 (coins (player_list g ! p) - amount)\<rparr>]\<rparr>))"

definition set_sanctioned :: "game \<Rightarrow> nat \<Rightarrow> bool \<Rightarrow> game" where
  "set_sanctioned g p v =
     g\<lparr>player_list := (player_list g)[p := (player_list g ! p)\<lparr>sanctioned := v\<rparr>]\<rparr>"

definition set_arrest_blocked :: "game \<Rightarrow> nat \<Rightarrow> bool \<Rightarrow> game" where
  "set_arrest_blocked g p v =
     g\<lparr>player_list := (player_list g)[p := (player_list g ! p)\<lparr>arrest_blocked := v\<rparr>]\<rparr>"

definition deactivate :: "game \<Rightarrow> nat \<Rightarrow> game" where
  "deactivate g p = g\<lparr>player_list := (player_list g)[p := (player_list g ! p)\<lparr>active := False\<rparr>]\<rparr>"

text \<open>
  The virtual \<^verbatim>\<open>on_turn_start\<close>: empty in \<^verbatim>\<open>Player\<close>, overridden by \<^verbatim>\<open>Merchant\<close> only.
\<close>

definition on_turn_start :: "game \<Rightarrow> nat \<Rightarrow> outcome" where
  "on_turn_start g p =
     (if role (player_list g ! p) = Merchant then
        (if coins (player_list g ! p) \<ge> 3 then
           (if treasury g \<ge> 1 then
              then_do (remove_from_treasury g 1) (\<lambda>g1. Returns (add_coins g1 p 1))
            else Returns g)
         else Returns g)
      else Returns g)"

text \<open>
  The \<^verbatim>\<open>do ... while\<close> loop of \<^verbatim>\<open>Game::next_turn\<close> over \<^verbatim>\<open>current_turn\<close>, which
  starts at \<open>starting_turn\<close>. \<open>None\<close> means that the loop never ends.
\<close>

partial_function (option) find_next_active :: "player list \<Rightarrow> nat \<Rightarrow> nat \<Rightarrow> nat option" where
  "find_next_active ps starting_turn cur =
     (let cur' = (cur + 1) mod length ps in
      if cur' \<noteq> starting_turn \<and> \<not> active (ps ! cur') then find_next_active ps starting_turn cur'
      else Some cur')"

declare find_next_active.simps [code]

definition active_count :: "game \<Rightarrow> nat" where
  "active_count g = length (filter active (player_list g))"

definition next_turn :: "game \<Rightarrow> outcome" where
  "next_turn g =
     (if active_count g \<le> 1 then Returns g
      else
        let g1 = (case get_current_player g of
                    None \<Rightarrow> g
                  | Some c \<Rightarrow> set_arrest_blocked (set_sanctioned g c False) c False)
        in case find_next_active (player_list g1) (current_turn g1) (current_turn g1) of
             None \<Rightarrow> Loops
           | Some c' \<Rightarrow>
               let g2 = g1\<lparr>current_turn := c'\<rparr> in
               (case get_current_player g2 of
                  None \<Rightarrow> Returns g2
                | Some n \<Rightarrow>
                    if active (player_list g2 ! n) then
                      then_do (on_turn_start g2 n) (\<lambda>g3. Returns (start_turn_actions g3))
                    else Returns g2))"

definition is_game_over :: "game \<Rightarrow> bool" where
  "is_game_over g = (active_count g \<le> 1)"

section \<open>Player.cpp and Roles.cpp: the actions\<close>

definition Player :: "role \<Rightarrow> string \<Rightarrow> player" where
  "Player r n = \<lparr>name = n, coins = 0, active = True, sanctioned = False,
                 own_last_arrested_player = [], arrest_blocked = False, role = r\<rparr>"

definition validate_action :: "game \<Rightarrow> nat \<Rightarrow> exn option" where
  "validate_action g p =
     (if \<not> active (player_list g ! p) then Some (IllegalMoveException ''Player is not active'')
      else if \<not> is_player_turn g p then Some (NotYourTurnException ''Not your turn'')
      else validate_game_state g)"

definition validate_target :: "game \<Rightarrow> nat \<Rightarrow> exn option" where
  "validate_target g t =
     (if \<not> active (player_list g ! t) then Some (IllegalTargetException ''Target player is not active'')
      else None)"

definition validate_coins :: "game \<Rightarrow> nat \<Rightarrow> int \<Rightarrow> exn option" where
  "validate_coins g p required =
     (if coins (player_list g ! p) < required then
        Some (NotEnoughCoinsException ''Not enough coins for action'')
      else None)"

text \<open>
  The last three statements of every turn-consuming action:
  \<^verbatim>\<open>consume_action(); if (get_actions_remaining() == 0) next_turn();\<close>
\<close>

definition consume_and_advance :: "game \<Rightarrow> outcome" where
  "consume_and_advance g =
     (let g' = consume_action g in
      if actions_remaining g' = 0 then next_turn g' else Returns g')"

definition gather :: "game \<Rightarrow> nat \<Rightarrow> outcome" where
  "gather g p =
     (case validate_action g p of
        Some e \<Rightarrow> Throws e g
      | None \<Rightarrow>
          if sanctioned (player_list g ! p) then
            Throws (IllegalMoveException ''Player is under sanctions'') g
          else then_do (remove_from_treasury g 1) (\<lambda>g1. consume_and_advance (add_coins g1 p 1)))"

definition tax :: "game \<Rightarrow> nat \<Rightarrow> outcome" where
  "tax g p =
     (case validate_action g p of
        Some e \<Rightarrow> Throws e g
      | None \<Rightarrow>
          if sanctioned (player_list g ! p) then
            Throws (IllegalMoveException ''Player is under sanctions'') g
          else
            let tax_amount = (if role (player_list g ! p) = Governor then 3 else 2) in
            then_do (remove_from_treasury g tax_amount)
              (\<lambda>g1. consume_and_advance (add_coins g1 p tax_amount)))"

definition bribe :: "game \<Rightarrow> nat \<Rightarrow> outcome" where
  "bribe g p =
     (case validate_action g p of
        Some e \<Rightarrow> Throws e g
      | None \<Rightarrow>
          (case validate_coins g p 4 of
             Some e \<Rightarrow> Throws e g
           | None \<Rightarrow>
               then_do (remove_coins g p 4) (\<lambda>g1.
               then_do (add_to_treasury g1 4) (\<lambda>g2.
               consume_and_advance (add_extra_actions g2 2)))))"

definition arrest :: "game \<Rightarrow> nat \<Rightarrow> nat \<Rightarrow> outcome" where
  "arrest g p t =
     (case validate_action g p of
        Some e \<Rightarrow> Throws e g
      | None \<Rightarrow>
     (case validate_target g t of
        Some e \<Rightarrow> Throws e g
      | None \<Rightarrow>
          if t = p then Throws (IllegalTargetException ''Cannot arrest yourself'') g
          else if arrest_blocked (player_list g ! p) then
            Throws (IllegalMoveException ''You are blocked from using arrest this turn'') g
          else if last_arrested_player g = name (player_list g ! t) then
            Throws (IllegalMoveException ''Cannot arrest the same player twice in a row'') g
          else
            then_do
              (if role (player_list g ! t) = General then Returns g
               else if role (player_list g ! t) = Merchant then
                 (if coins (player_list g ! t) > 0 then
                    (let coinsToTreasury = min (coins (player_list g ! t)) 2 in
                     then_do (remove_coins g t coinsToTreasury)
                       (\<lambda>g1. add_to_treasury g1 coinsToTreasury))
                  else Returns g)
               else
                 (if coins (player_list g ! t) > 0 then
                    then_do (remove_coins g t 1) (\<lambda>g1. Returns (add_coins g1 p 1))
                  else Returns g))
              (\<lambda>g2. consume_and_advance
                      (set_last_arrested_player g2 (name (player_list g2 ! t))))))"

definition sanction :: "game \<Rightarrow> nat \<Rightarrow> nat \<Rightarrow> outcome" where
  "sanction g p t =
     (case validate_action g p of
        Some e \<Rightarrow> Throws e g
      | None \<Rightarrow>
     (case validate_target g t of
        Some e \<Rightarrow> Throws e g
      | None \<Rightarrow>
          if t = p then Throws (IllegalTargetException ''Cannot sanction yourself'') g
          else
            let cost = (if role (player_list g ! t) = Judge then 4 else 3) in
            (case validate_coins g p cost of
               Some e \<Rightarrow> Throws e g
             | None \<Rightarrow>
                 then_do (remove_coins g p cost) (\<lambda>g1.
                 then_do (add_to_treasury g1 cost) (\<lambda>g2.
                 then_do
                   (if role (player_list g2 ! t) = Baron then
                      (if treasury g2 \<ge> 1 then
                         then_do (remove_from_treasury g2 1) (\<lambda>g3. Returns (add_coins g3 t 1))
                       else Returns g2)
                    else Returns g2)
                   (\<lambda>g4. consume_and_advance (set_sanctioned g4 t True)))))))"

definition coup :: "game \<Rightarrow> nat \<Rightarrow> nat \<Rightarrow> outcome" where
  "coup g p t =
     (case validate_action g p of
        Some e \<Rightarrow> Throws e g
      | None \<Rightarrow>
     (case validate_target g t of
        Some e \<Rightarrow> Throws e g
      | None \<Rightarrow>
     (case validate_coins g p 7 of
        Some e \<Rightarrow> Throws e g
      | None \<Rightarrow>
          if t = p then Throws (IllegalTargetException ''Cannot coup yourself'') g
          else
            then_do (remove_coins g p 7) (\<lambda>g1.
            then_do (add_to_treasury g1 7) (\<lambda>g2.
            consume_and_advance (deactivate g2 t))))))"

text \<open>\<^verbatim>\<open>Spy::investigate\<close> and \<^verbatim>\<open>Spy::block_arrest_ability\<close>: methods of class \<^verbatim>\<open>Spy\<close>.\<close>

definition investigate :: "game \<Rightarrow> nat \<Rightarrow> nat \<Rightarrow> outcome" where
  "investigate g p t =
     (case validate_action g p of
        Some e \<Rightarrow> Throws e g
      | None \<Rightarrow>
     (case validate_target g t of
        Some e \<Rightarrow> Throws e g
      | None \<Rightarrow>
          if t = p then Throws (IllegalTargetException ''Cannot investigate yourself'') g
          else Returns g))"

definition block_arrest_ability :: "game \<Rightarrow> nat \<Rightarrow> nat \<Rightarrow> outcome" where
  "block_arrest_ability g p t =
     (case validate_action g p of
        Some e \<Rightarrow> Throws e g
      | None \<Rightarrow>
     (case validate_target g t of
        Some e \<Rightarrow> Throws e g
      | None \<Rightarrow>
          if t = p then Throws (IllegalTargetException ''Cannot block your own arrest ability'') g
          else Returns (set_arrest_blocked g t True)))"

text \<open>\<^verbatim>\<open>Baron::invest\<close>: a method of class \<^verbatim>\<open>Baron\<close>.\<close>

definition invest :: "game \<Rightarrow> nat \<Rightarrow> outcome" where
  "invest g p =
     (case validate_action g p of
        Some e \<Rightarrow> Throws e g
      | None \<Rightarrow>
     (case validate_coins g p 3 of
        Some e \<Rightarrow> Throws e g
      | None \<Rightarrow>
          if treasury g < 6 then
            Throws (IllegalMoveException ''Treasury doesn't have enough coins for investment return'') g
          else
            then_do (remove_coins g p 3) (\<lambda>g1.
            then_do (add_to_treasury g1 3) (\<lambda>g2.
            then_do (remove_from_treasury g2 6) (\<lambda>g3.
            consume_and_advance (add_coins g3 p 6))))))"

text \<open>
  \<^verbatim>\<open>GUI::performAction\<close>, the one place where an accepted action is committed: it calls
  the player's method named by the action. The exception it catches is kept in the
  outcome, with the state in which it was thrown.
\<close>

definition performAction :: "game \<Rightarrow> string \<Rightarrow> nat \<Rightarrow> nat option \<Rightarrow> outcome" where
  "performAction g action actor target =
     (if action = ''Gather'' then gather g actor
      else if action = ''Tax'' then tax g actor
      else if action = ''Bribe'' then bribe g actor
      else if action = ''Invest'' then
        (if role (player_list g ! actor) = Baron then invest g actor
         else Throws (IllegalMoveException ''Only Baron can invest'') g)
      else if action = ''Arrest'' \<and> target \<noteq> None then arrest g actor (the target)
      else if action = ''Sanction'' \<and> target \<noteq> None then sanction g actor (the target)
      else if action = ''Coup'' \<and> target \<noteq> None then coup g actor (the target)
      else Returns g)"

section \<open>The turn transition as the specification words it\<close>

text \<open>
  The match invariant on the turn pointer: it refers to a seat of the roster (an empty
  roster has no seat to refer to).
\<close>

definition turn_in_range :: "game \<Rightarrow> bool" where
  "turn_in_range g = (player_list g = [] \<or> current_turn g < length (player_list g))"

text \<open>
  The turn-begin hook in the specification's words: a Merchant with a balance of at least
  3 gains 1 coin from a treasury of at least 1; no other role does anything. The balance
  is a 32-bit value, so the coin is added with \<open>int32\<close>.
\<close>

definition spec_turn_begin :: "game \<Rightarrow> nat \<Rightarrow> game" where
  "spec_turn_begin g n =
     (if role (player_list g ! n) = Merchant \<and> coins (player_list g ! n) \<ge> 3 \<and> treasury g \<ge> 1 then
        g\<lparr>treasury := treasury g - 1,
          player_list :=
            (player_list g)[n := (player_list g ! n)\<lparr>coins := int32 (coins (player_list g ! n) + 1)\<rparr>]\<rparr>
      else g)"

text \<open>
  The next seat after \<open>c\<close> in circular seating order whose occupant is active; \<open>None\<close>
  when the search wraps back to \<open>c\<close>.
\<close>

definition spec_next_active_seat :: "player list \<Rightarrow> nat \<Rightarrow> nat option" where
  "spec_next_active_seat ps c =
     find (\<lambda>i. active (ps ! i)) (map (\<lambda>k. (c + k) mod length ps) [1..<length ps])"

text \<open>
  \<^verbatim>\<open>advance_turn\<close>, steps 1 to 5 of the specification (step 2 only logs): with at most
  one active participant nothing happens; otherwise the flags of the departing participant
  are cleared, the pointer moves to the next active seat, and if one is found its
  turn-begin hook runs and the counter is reset to 1.
\<close>

definition spec_advance_turn :: "game \<Rightarrow> game" where
  "spec_advance_turn g =
     (if length (filter active (player_list g)) \<le> 1 then g
      else
        let c = current_turn g;
            cleared = g\<lparr>player_list :=
              (player_list g)[c := (player_list g ! c)\<lparr>sanctioned := False, arrest_blocked := False\<rparr>]\<rparr>
        in case spec_next_active_seat (player_list g) c of
             None \<Rightarrow> cleared
           | Some n \<Rightarrow> (spec_turn_begin (cleared\<lparr>current_turn := n\<rparr>) n)\<lparr>actions_remaining := 1\<rparr>)"

section \<open>Measures, outcomes of runs and auxiliary states\<close>

text \<open>All coins in the system: the treasury and the balances of all seats.\<close>

definition total_coins :: "game \<Rightarrow> int" where
  "total_coins g = treasury g + sum_list (map coins (player_list g))"

text \<open>
  The range in which the coin arithmetic is exact: no balance is negative and the total
  fits a 32-bit \<^verbatim>\<open>int\<close>, so that every balance lies between 0 and 2147483647.
\<close>

definition coins_in_range :: "game \<Rightarrow> bool" where
  "coins_in_range g =
     (0 \<le> treasury g
      \<and> (\<forall>i < length (player_list g). 0 \<le> coins (player_list g ! i))
      \<and> total_coins g \<le> 2147483647)"

text \<open>The state a call leaves behind, whether it returned or threw; none if it never ends.\<close>

fun final_state :: "outcome \<Rightarrow> game option" where
  "final_state (Returns g) = Some g"
| "final_state (Throws e g) = Some g"
| "final_state Loops = None"

text \<open>
  A sequence of commits: each entry is an action name, the acting seat and the target; a
  commit that throws leaves the state it threw in, and the next commit starts there.
\<close>

fun commit_all :: "game \<Rightarrow> (string \<times> nat \<times> nat option) list \<Rightarrow> game option" where
  "commit_all g [] = Some g"
| "commit_all g ((action, actor, target) # rest) =
     (case final_state (performAction g action actor target) of
        None \<Rightarrow> None
      | Some g' \<Rightarrow> commit_all g' rest)"

text \<open>
  A call conserves when it ends, in a state with the same roster size and the same total,
  with the coins in range and the turn pointer in range.
\<close>

definition conserved :: "game \<Rightarrow> outcome \<Rightarrow> bool" where
  "conserved g out =
     (case final_state out of
        None \<Rightarrow> False
      | Some g' \<Rightarrow> turn_in_range g' \<and> coins_in_range g' \<and> total_coins g' = total_coins g
                 \<and> length (player_list g') = length (player_list g))"

text \<open>
  The state after the turn has passed from the current seat to seat \<open>n\<close>; \<open>b\<close> tells
  whether that seat took a turn-begin coin from the treasury.
\<close>

definition hand_over :: "game \<Rightarrow> nat \<Rightarrow> bool \<Rightarrow> game" where
  "hand_over g n b =
     g\<lparr>player_list :=
         ((player_list g)[current_turn g := (player_list g ! current_turn g)
                            \<lparr>sanctioned := False, arrest_blocked := False\<rparr>])
           [n := (if b then (player_list g ! n)\<lparr>coins := int32 (coins (player_list g ! n) + 1)\<rparr>
                  else player_list g ! n)],
       current_turn := n,
       treasury := (if b then treasury g - 1 else treasury g),
       actions_remaining := 1\<rparr>"


text \<open>
  The form of an arrest: it throws in the state it was called in, or it records the name
  of its target, after an effect that keeps names and turn pointer, and then runs the
  end-of-action statements.
\<close>

definition records_arrest :: "game \<Rightarrow> nat \<Rightarrow> outcome \<Rightarrow> bool" where
  "records_arrest g t out =
     ((\<exists>e. out = Throws e g)
      \<or> (\<exists>g0. out = consume_and_advance (set_last_arrested_player g0 (name (player_list g ! t)))
             \<and> map name (player_list g0) = map name (player_list g)
             \<and> current_turn g0 = current_turn g))"


text \<open>
  The calls that the engine offers to its callers (the window code and the tests): joining
  and starting, the manual end of a turn, committing an action, the two free Spy
  operations, the coin and treasury movements used when a block is resolved, and the
  public \<^verbatim>\<open>Game::add_extra_actions\<close>. \<open>run_calls\<close> makes them one after the other; a
  call that throws leaves the state it threw in.
\<close>

datatype call =
    Join player
  | Start
  | EndTurn
  | Commit string nat "nat option"
  | Investigate nat nat
  | BlockArrest nat nat
  | AddCoins nat int
  | RemoveCoins nat int
  | Credit int
  | Debit int
  | ExtraActions int

fun do_call :: "game \<Rightarrow> call \<Rightarrow> outcome" where
  "do_call g (Join pl) = add_player g pl"
| "do_call g Start = start_game g"
| "do_call g EndTurn = next_turn g"
| "do_call g (Commit action p target) = performAction g action p target"
| "do_call g (Investigate p t) = investigate g p t"
| "do_call g (BlockArrest p t) = block_arrest_ability g p t"
| "do_call g (AddCoins p amount) = Returns (add_coins g p amount)"
| "do_call g (RemoveCoins p amount) = remove_coins g p amount"
| "do_call g (Credit amount) = add_to_treasury g amount"
| "do_call g (Debit amount) = remove_from_treasury g amount"
| "do_call g (ExtraActions count) = Returns (add_extra_actions g count)"

fun run_calls :: "game \<Rightarrow> call list \<Rightarrow> game option" where
  "run_calls g [] = Some g"
| "run_calls g (c # cs) =
     (case final_state (do_call g c) of None \<Rightarrow> None | Some g' \<Rightarrow> run_calls g' cs)"



section \<open>Example tables\<close>

text \<open>A seat holding \<open>c\<close> coins, and a started match over the given seats.\<close>

definition seat :: "string \<Rightarrow> role \<Rightarrow> int \<Rightarrow> player" where
  "seat n r c = (Player r n)\<lparr>coins := c\<rparr>"

definition table :: "player list \<Rightarrow> game" where
  "table ps = Game\<lparr>player_list := ps, game_started := True\<rparr>"

text \<open>
  Four seats: Alice is sanctioned and on turn, Bob is eliminated, Carol is a Merchant with
  3 coins.
\<close>

definition four_seats :: game where
  "four_seats =
     table [(seat ''Alice'' Governor 2)\<lparr>sanctioned := True\<rparr>,
            (seat ''Bob'' Spy 0)\<lparr>active := False\<rparr>,
            seat ''Carol'' Merchant 3,
            seat ''Dave'' Baron 1]"

text \<open>Three seats: Alice can pay for a coup, Carol is a Merchant with 3 coins.\<close>

definition three_seats :: game where
  "three_seats = table [seat ''Alice'' Governor 8, seat ''Bob'' Spy 4, seat ''Carol'' Merchant 3]"

text \<open>Scenario C of the specification: a Spy with 4 coins and a Baron.\<close>

definition scenario_c :: game where
  "scenario_c = table [seat ''Eve'' Spy 4, seat ''Bart'' Baron 0]"

text \<open>
  A match that a coup has ended: Bob is eliminated, Alice is alone and on turn, and the
  counter is 0.
\<close>

definition over_table :: game where
  "over_table =
     (table [seat ''Alice'' Governor 2, (seat ''Bob'' Spy 3)\<lparr>active := False\<rparr>])
       \<lparr>treasury := 45, actions_remaining := 0\<rparr>"


lemmas state_defs =
  table_def seat_def Player_def Game_def

lemmas validator_defs =
  getValidationResult_def validatePlayerState_def validateGameState_def validateCoins_def
  validateRoleSpecificRequirements_def validateTarget_def validate_game_state_def
  is_player_turn_def getActionCost_def actionCosts_def requiresTarget_def
  targetRequiredActions_def invalid_def valid_def what_def

lemmas effect_defs =
  add_coins_def remove_coins_def add_to_treasury_def remove_from_treasury_def
  set_sanctioned_def set_arrest_blocked_def deactivate_def set_last_arrested_player_def
  add_extra_actions_def

lemmas engine_defs =
  validate_action_def validate_target_def validate_coins_def is_player_turn_def
  validate_game_state_def effect_defs consume_and_advance_def consume_action_def next_turn_def
  active_count_def get_current_player_def find_next_active.simps on_turn_start_def
  start_turn_actions_def int32_def Let_def

lemmas commit_defs =
  performAction_def gather_def tax_def bribe_def invest_def arrest_def sanction_def coup_def
  engine_defs

section \<open>The rule validator\<close>

lemma requiresTarget_iff:
  "requiresTarget a \<longleftrightarrow>
     a = ''Arrest'' \<or> a = ''Sanction'' \<or> a = ''Coup'' \<or> a = ''Investigate'' \<or> a = ''Block Arrest''"
  by (auto simp add: requiresTarget_def targetRequiredActions_def)

text \<open>
  C3. An actor holding 10 or more coins gets the fixed mandatory-coup verdict for every
  action name other than \<^verbatim>\<open>"Coup"\<close> and \<^verbatim>\<open>"End Turn"\<close>, whatever the target and the state
  of the game.
\<close>

theorem mandatory_coup_rejects:
  assumes "coins (player_list g ! a) \<ge> 10"
    and "action \<noteq> ''Coup''" and "action \<noteq> ''End Turn''"
  shows "getValidationResult g action (Some a) target =
           invalid ''Must perform coup when having 10 or more coins''"
  using assms by (simp add: getValidationResult_def)

theorem mandatory_coup_rejects_witness:
  "coins (player_list (table [seat ''Alice'' Governor 10, seat ''Bob'' Spy 0]) ! 0) \<ge> 10
   \<and> ''Tax'' \<noteq> ''Coup'' \<and> ''Tax'' \<noteq> ''End Turn''
   \<and> getValidationResult (table [seat ''Alice'' Governor 10, seat ''Bob'' Spy 0]) ''Tax'' (Some 0) None
       = invalid ''Must perform coup when having 10 or more coins''"
proof -
  have c: "coins (player_list (table [seat ''Alice'' Governor 10, seat ''Bob'' Spy 0]) ! 0) \<ge> 10"
    by (simp add: state_defs)
  have n1: "''Tax'' \<noteq> ''Coup''" and n2: "''Tax'' \<noteq> ''End Turn''" by simp_all
  from mandatory_coup_rejects [OF c n1 n2, of None] c show ?thesis by simp
qed

text \<open>
  C9, as the claim states it, fails: an eliminated actor with 10 coins who asks for
  \<^verbatim>\<open>"Gather"\<close> gets the mandatory-coup verdict, not the verdict of the activity check.
\<close>

theorem inactive_rich_actor_counterexample:
  "\<not> active (player_list (table [(seat ''Alice'' Governor 10)\<lparr>active := False\<rparr>, seat ''Bob'' Spy 0]) ! 0)
   \<and> getValidationResult (table [(seat ''Alice'' Governor 10)\<lparr>active := False\<rparr>, seat ''Bob'' Spy 0])
        ''Gather'' (Some 0) None
       = invalid ''Must perform coup when having 10 or more coins''
   \<and> getValidationResult (table [(seat ''Alice'' Governor 10)\<lparr>active := False\<rparr>, seat ''Bob'' Spy 0])
        ''Gather'' (Some 0) None
       \<noteq> invalid ''Player is not active''"
  by (simp add: state_defs validator_defs)

text \<open>
  C9, amended. The verdict is that of the first failing check in this order: actor
  supplied; mandatory coup; actor active; turn ownership; match started; coins; role
  gating; target. So the mandatory-coup rule decides before the activity of the actor is
  looked at, and the activity check decides before everything after it.
\<close>

theorem evaluate_check_order:
  "getValidationResult g action None target = invalid ''No actor specified''
   \<and> (coins (player_list g ! a) \<ge> 10 \<and> action \<noteq> ''Coup'' \<and> action \<noteq> ''End Turn'' \<longrightarrow>
        getValidationResult g action (Some a) target
          = invalid ''Must perform coup when having 10 or more coins'')
   \<and> (\<not> (coins (player_list g ! a) \<ge> 10 \<and> action \<noteq> ''Coup'' \<and> action \<noteq> ''End Turn'') \<longrightarrow>
        (\<not> active (player_list g ! a) \<longrightarrow>
           getValidationResult g action (Some a) target = invalid ''Player is not active'')
      \<and> (active (player_list g ! a) \<longrightarrow>
        (\<not> is_player_turn g a \<longrightarrow>
           getValidationResult g action (Some a) target = invalid ''Not your turn'')
      \<and> (is_player_turn g a \<longrightarrow>
        (\<not> game_started g \<longrightarrow>
           getValidationResult g action (Some a) target = invalid ''Game has not started'')
      \<and> (game_started g \<longrightarrow>
        (\<not> isValid (validateCoins g action a) \<longrightarrow>
           getValidationResult g action (Some a) target = validateCoins g action a)
      \<and> (isValid (validateCoins g action a) \<longrightarrow>
        (\<not> isValid (validateRoleSpecificRequirements g action a) \<longrightarrow>
           getValidationResult g action (Some a) target
             = validateRoleSpecificRequirements g action a)
      \<and> (isValid (validateRoleSpecificRequirements g action a) \<longrightarrow>
        (requiresTarget action \<and> \<not> isValid (validateTarget g action a target) \<longrightarrow>
           getValidationResult g action (Some a) target = validateTarget g action a target)
      \<and> (\<not> (requiresTarget action \<and> \<not> isValid (validateTarget g action a target)) \<longrightarrow>
           getValidationResult g action (Some a) target = valid)))))))"
  by (simp add: getValidationResult_def validatePlayerState_def validateGameState_def
      validate_game_state_def what_def invalid_def valid_def)

theorem evaluate_check_order_witness:
  "(coins (player_list (table [(seat ''Alice'' Governor 10)\<lparr>active := False\<rparr>, seat ''Bob'' Spy 0]) ! 0) \<ge> 10
      \<and> ''Gather'' \<noteq> ''Coup'' \<and> ''Gather'' \<noteq> ''End Turn'')
   \<and> getValidationResult (table [(seat ''Alice'' Governor 10)\<lparr>active := False\<rparr>, seat ''Bob'' Spy 0])
        ''Gather'' (Some 0) None = invalid ''Must perform coup when having 10 or more coins''
   \<and> \<not> active (player_list (table [(seat ''Alice'' Governor 10)\<lparr>active := False\<rparr>, seat ''Bob'' Spy 0]) ! 0)
   \<and> getValidationResult (table [(seat ''Alice'' Governor 10)\<lparr>active := False\<rparr>, seat ''Bob'' Spy 0])
        ''Coup'' (Some 0) (Some 1) = invalid ''Player is not active''
   \<and> active (player_list (table [seat ''Alice'' Governor 7, seat ''Bob'' Spy 0]) ! 0)
   \<and> is_player_turn (table [seat ''Alice'' Governor 7, seat ''Bob'' Spy 0]) 0
   \<and> game_started (table [seat ''Alice'' Governor 7, seat ''Bob'' Spy 0])
   \<and> isValid (validateCoins (table [seat ''Alice'' Governor 7, seat ''Bob'' Spy 0]) ''Coup'' 0)
   \<and> isValid (validateRoleSpecificRequirements (table [seat ''Alice'' Governor 7, seat ''Bob'' Spy 0]) ''Coup'' 0)
   \<and> requiresTarget ''Coup''
   \<and> \<not> isValid (validateTarget (table [seat ''Alice'' Governor 7, seat ''Bob'' Spy 0]) ''Coup'' 0 None)
   \<and> getValidationResult (table [seat ''Alice'' Governor 7, seat ''Bob'' Spy 0]) ''Coup'' (Some 0) None
        = invalid ''Target required for Coup''
   \<and> getValidationResult (table [seat ''Alice'' Governor 7, seat ''Bob'' Spy 0]) ''Coup'' (Some 0) (Some 1)
        = valid"
  using evaluate_check_order [of "table [(seat ''Alice'' Governor 10)\<lparr>active := False\<rparr>, seat ''Bob'' Spy 0]"
          "''Gather''" None 0]
        evaluate_check_order [of "table [(seat ''Alice'' Governor 10)\<lparr>active := False\<rparr>, seat ''Bob'' Spy 0]"
          "''Coup''" "Some 1" 0]
        evaluate_check_order [of "table [seat ''Alice'' Governor 7, seat ''Bob'' Spy 0]" "''Coup''" None 0]
        evaluate_check_order [of "table [seat ''Alice'' Governor 7, seat ''Bob'' Spy 0]" "''Coup''" "Some 1" 0]
  by (simp add: state_defs validator_defs)

text \<open>
  C6, as the claim states it, fails: self-targeting is always rejected, but the reason is
  that of the first failing check, and the target check is the last one. A player who is
  not on turn gets \<^verbatim>\<open>NotYourTurnException\<close>, and one who cannot pay for the coup gets
  \<^verbatim>\<open>NotEnoughCoinsException\<close>.
\<close>

theorem self_target_other_reason_counterexample:
  "requiresTarget ''Arrest''
   \<and> getValidationResult (table [seat ''Alice'' Governor 0, seat ''Bob'' Spy 0]) ''Arrest'' (Some 1) (Some 1)
       = invalid ''Not your turn''
   \<and> validateActionExecution (table [seat ''Alice'' Governor 0, seat ''Bob'' Spy 0]) ''Arrest'' (Some 1) (Some 1)
       = Some (NotYourTurnException ''Not your turn'')
   \<and> validateActionExecution (table [seat ''Alice'' Governor 0, seat ''Bob'' Spy 0]) ''Coup'' (Some 0) (Some 0)
       = Some (NotEnoughCoinsException ''Need 7 coins for Coup'')"
  by (simp add: validateActionExecution_def state_defs validator_defs to_string_def digit_char_def)

text \<open>
  C6, amended. For every target-requiring action and every player \<open>p\<close>, the verdict on
  \<open>p\<close> targeting \<open>p\<close> is a rejection; when \<open>p\<close> passes every check that precedes the
  target check (those of the button test), the verdict is the self-target message and the
  exception thrown for it is \<^verbatim>\<open>IllegalTargetException\<close>.
\<close>

theorem self_target_rejected:
  assumes "requiresTarget action"
  shows "\<not> isValid (getValidationResult g action (Some p) (Some p))
     \<and> (isActionAvailableForButton g action (Some p) \<longrightarrow>
          getValidationResult g action (Some p) (Some p)
            = invalid (''Cannot target yourself with '' @ action)
        \<and> validateActionExecution g action (Some p) (Some p)
            = Some (IllegalTargetException (''Cannot target yourself with '' @ action)))"
proof -
  have rejects: "\<not> isValid (getValidationResult g action (Some p) (Some p))"
    using assms by (simp add: getValidationResult_def validateTarget_def invalid_def valid_def)
  have reason: "getValidationResult g action (Some p) (Some p)
            = invalid (''Cannot target yourself with '' @ action)"
    if "isActionAvailableForButton g action (Some p)"
    using that assms
    by (simp add: isActionAvailableForButton_def getValidationResult_def validateTarget_def
        validatePlayerState_def invalid_def valid_def split: if_splits)
  have kind: "validateActionExecution g action (Some p) (Some p)
            = Some (IllegalTargetException (''Cannot target yourself with '' @ action))"
    if "isActionAvailableForButton g action (Some p)"
    using assms reason [OF that] unfolding requiresTarget_iff
    by (auto simp add: validateActionExecution_def invalid_def)
  from rejects reason kind show ?thesis by blast
qed

theorem self_target_rejected_witness:
  "requiresTarget ''Sanction''
   \<and> isActionAvailableForButton (table [seat ''Alice'' Governor 3, seat ''Bob'' Spy 0]) ''Sanction'' (Some 0)
   \<and> \<not> isValid (getValidationResult (table [seat ''Alice'' Governor 3, seat ''Bob'' Spy 0])
                  ''Sanction'' (Some 0) (Some 0))
   \<and> validateActionExecution (table [seat ''Alice'' Governor 3, seat ''Bob'' Spy 0])
        ''Sanction'' (Some 0) (Some 0)
       = Some (IllegalTargetException ''Cannot target yourself with Sanction'')"
proof -
  have r: "requiresTarget ''Sanction''" by (simp add: requiresTarget_iff)
  have b: "isActionAvailableForButton (table [seat ''Alice'' Governor 3, seat ''Bob'' Spy 0]) ''Sanction'' (Some 0)"
    by (simp add: isActionAvailableForButton_def state_defs validator_defs)
  from self_target_rejected [OF r, of "table [seat ''Alice'' Governor 3, seat ''Bob'' Spy 0]" 0] r b
  show ?thesis by (simp add: invalid_def)
qed

text \<open>
  C1. The validator never looks at the target when it checks coins: a Spy with exactly 3
  coins is accepted for a sanction on a Judge, and the sanction itself then throws
  \<^verbatim>\<open>NotEnoughCoinsException\<close>, since \<^verbatim>\<open>Player::sanction\<close> asks for 4 coins.
\<close>

theorem judge_sanction_three_coins:
  "role (player_list (table [seat ''Alice'' Spy 3, seat ''Bob'' Judge 0]) ! 1) = Judge
   \<and> coins (player_list (table [seat ''Alice'' Spy 3, seat ''Bob'' Judge 0]) ! 0) = 3
   \<and> getValidationResult (table [seat ''Alice'' Spy 3, seat ''Bob'' Judge 0]) ''Sanction'' (Some 0) (Some 1) = valid
   \<and> validateActionExecution (table [seat ''Alice'' Spy 3, seat ''Bob'' Judge 0]) ''Sanction'' (Some 0) (Some 1) = None
   \<and> sanction (table [seat ''Alice'' Spy 3, seat ''Bob'' Judge 0]) 0 1
       = Throws (NotEnoughCoinsException ''Not enough coins for action'')
           (table [seat ''Alice'' Spy 3, seat ''Bob'' Judge 0])"
  by (simp add: validateActionExecution_def state_defs validator_defs sanction_def validate_action_def
      validate_target_def validate_coins_def)

section \<open>The turn transition\<close>

lemma mod_shift_eq_self:
  fixes c n j :: nat
  assumes "c < n" "0 < j" "j < n"
  shows "(c + j) mod n \<noteq> c"
proof (cases "c + j < n")
  case True
  then show ?thesis using assms by simp
next
  case False
  then have "(c + j) mod n = c + j - n"
    using assms by (simp add: le_mod_geq)
  then show ?thesis using assms False by simp
qed

lemma find_next_active_from:
  assumes "c < length ps" "k < length ps"
  shows "find_next_active ps c ((c + k) mod length ps) =
          Some (case find (\<lambda>i. active (ps ! i)) (map (\<lambda>j. (c + j) mod length ps) [Suc k..<length ps]) of
                  Some i \<Rightarrow> i | None \<Rightarrow> c)"
  using assms
proof (induction "length ps - Suc k" arbitrary: k)
  case 0
  then have k: "Suc k = length ps" by simp
  have "Suc ((c + k) mod length ps) mod length ps = (c + Suc k) mod length ps"
    by (simp add: mod_Suc_eq)
  also have "\<dots> = c" using k 0 by simp
  finally have step: "Suc ((c + k) mod length ps) mod length ps = c" .
  show ?case
    by (subst find_next_active.simps) (simp add: step k Let_def)
next
  case (Suc m)
  then have lt: "Suc k < length ps" by simp
  have step: "Suc ((c + k) mod length ps) mod length ps = (c + Suc k) mod length ps"
    by (simp add: mod_Suc_eq)
  have ne: "(c + Suc k) mod length ps \<noteq> c"
    using mod_shift_eq_self [of c "length ps" "Suc k"] Suc.prems lt by simp
  have upt: "[Suc k..<length ps] = Suc k # [Suc (Suc k)..<length ps]"
    using lt by (simp add: upt_conv_Cons)
  show ?case
  proof (cases "active (ps ! ((c + Suc k) mod length ps))")
    case True
    then show ?thesis
      by (subst find_next_active.simps) (simp add: step upt Let_def del: upt_Suc)
  next
    case False
    have m: "m = length ps - Suc (Suc k)" using Suc.hyps(2) by simp
    have ih: "find_next_active ps c ((c + Suc k) mod length ps) =
          Some (case find (\<lambda>i. active (ps ! i)) (map (\<lambda>j. (c + j) mod length ps) [Suc (Suc k)..<length ps]) of
                  Some i \<Rightarrow> i | None \<Rightarrow> c)"
      using Suc.hyps(1) [OF m Suc.prems(1) lt] .
    show ?thesis
      using False ne ih
      by (subst find_next_active.simps) (simp add: step upt Let_def del: upt_Suc)
  qed
qed

lemma find_next_active_eq:
  assumes "c < length ps"
  shows "find_next_active ps c c =
          Some (case spec_next_active_seat ps c of Some i \<Rightarrow> i | None \<Rightarrow> c)"
proof -
  have "ps \<noteq> []" using assms by (cases ps) simp_all
  then show ?thesis
    using find_next_active_from [OF assms, of 0] assms
    by (simp add: spec_next_active_seat_def)
qed

lemma other_active_seat:
  assumes "2 \<le> length (filter active ps)"
  shows "\<exists>i < length ps. i \<noteq> c \<and> active (ps ! i)"
proof (rule ccontr)
  assume "\<not> ?thesis"
  then have "{i. i < length ps \<and> active (ps ! i)} \<subseteq> {c}" by auto
  then have "card {i. i < length ps \<and> active (ps ! i)} \<le> card {c}"
    by (intro card_mono) auto
  then show False using assms by (simp add: length_filter_conv_card)
qed

lemma spec_next_active_seat_Some:
  assumes "2 \<le> length (filter active ps)" "c < length ps"
  shows "\<exists>n. spec_next_active_seat ps c = Some n \<and> n < length ps \<and> n \<noteq> c \<and> active (ps ! n)"
proof -
  let ?seats = "map (\<lambda>k. (c + k) mod length ps) [1..<length ps]"
  obtain i where i: "i < length ps" "i \<noteq> c" "active (ps ! i)"
    using other_active_seat [OF assms(1)] by blast
  define j where "j = (i + length ps - c) mod length ps"
  have cj: "(c + j) mod length ps = i"
    using i assms(2) unfolding j_def by (simp add: mod_add_right_eq)
  have "j \<noteq> 0"
  proof
    assume "j = 0"
    then have "i = c" using cj assms(2) by simp
    then show False using i by simp
  qed
  moreover have "j < length ps"
    unfolding j_def using i(1) by (cases ps) simp_all
  ultimately have "j \<in> set [1..<length ps]" by simp
  then have "(c + j) mod length ps \<in> set ?seats"
    unfolding set_map by (rule imageI)
  then have "i \<in> set ?seats" using cj by simp
  then have "find (\<lambda>i. active (ps ! i)) ?seats \<noteq> None"
    using i(3) unfolding find_None_iff by blast
  then obtain n where n: "find (\<lambda>i. active (ps ! i)) ?seats = Some n" by blast
  have act: "active (ps ! n)" using n unfolding find_Some_iff by blast
  have "n \<in> set ?seats" using n unfolding find_Some_iff by (metis nth_mem)
  then obtain k where k: "k \<in> set [1..<length ps]" "n = (c + k) mod length ps"
    unfolding set_map by blast
  have k1: "0 < k" and k2: "k < length ps" using k(1) by simp_all
  have "n \<noteq> c" using mod_shift_eq_self [OF assms(2) k1 k2] k(2) by simp
  moreover have "ps \<noteq> []" using assms(2) by (cases ps) simp_all
  then have "n < length ps" using k(2) by simp
  ultimately show ?thesis using n act unfolding spec_next_active_seat_def by blast
qed



lemma on_turn_start_eq: "on_turn_start g n = Returns (spec_turn_begin g n)"
  by (simp add: on_turn_start_def spec_turn_begin_def remove_from_treasury_def add_coins_def)

lemma spec_next_active_seat_cong:
  assumes "length ps' = length ps" "\<And>i. i < length ps \<Longrightarrow> active (ps' ! i) = active (ps ! i)"
  shows "spec_next_active_seat ps' c = spec_next_active_seat ps c"
proof (cases "ps = []")
  case True
  then show ?thesis using assms by (simp add: spec_next_active_seat_def)
next
  case False
  have "find (\<lambda>i. active (ps' ! i)) (map (\<lambda>k. (c + k) mod length ps) [1..<length ps])
      = find (\<lambda>i. active (ps ! i)) (map (\<lambda>k. (c + k) mod length ps) [1..<length ps])"
  proof (rule find_cong [OF refl])
    fix x assume "x \<in> set (map (\<lambda>k. (c + k) mod length ps) [1..<length ps])"
    then have "x < length ps" using False by auto
    then show "active (ps' ! x) = active (ps ! x)" by (rule assms(2))
  qed
  then show ?thesis
    unfolding spec_next_active_seat_def assms(1) .
qed

lemma next_turn_refines:
  assumes "turn_in_range g"
  shows "next_turn g = Returns (spec_advance_turn g)"
proof (cases "active_count g \<le> 1")
  case True
  then show ?thesis by (simp add: next_turn_def spec_advance_turn_def active_count_def)
next
  case False
  let ?ps = "player_list g" and ?c = "current_turn g"
  let ?ps1 = "?ps[?c := (?ps ! ?c)\<lparr>sanctioned := False, arrest_blocked := False\<rparr>]"
  from False have two: "2 \<le> length (filter active ?ps)" by (simp add: active_count_def)
  then have ne: "?ps \<noteq> []" by auto
  with assms have c: "?c < length ?ps" by (simp add: turn_in_range_def)
  have cur: "get_current_player g = Some ?c" using ne by (simp add: get_current_player_def)
  have g1: "set_arrest_blocked (set_sanctioned g ?c False) ?c False = g\<lparr>player_list := ?ps1\<rparr>"
    using c by (simp add: set_arrest_blocked_def set_sanctioned_def)
  have act1: "active (?ps1 ! i) = active (?ps ! i)" if "i < length ?ps" for i
    using that by (cases "i = ?c") simp_all
  have seat1: "spec_next_active_seat ?ps1 ?c = spec_next_active_seat ?ps ?c"
    by (rule spec_next_active_seat_cong) (simp_all add: act1)
  obtain n where n: "spec_next_active_seat ?ps ?c = Some n" "n < length ?ps" "active (?ps ! n)"
    using spec_next_active_seat_Some [OF two c] by blast
  have loop: "find_next_active ?ps1 ?c ?c = Some n"
    using find_next_active_eq [of ?c ?ps1] c seat1 n(1) by simp
  have actn: "active (?ps1 ! n)" using act1 [OF n(2)] n(3) by simp
  have cur2: "get_current_player (g\<lparr>player_list := ?ps1, current_turn := n\<rparr>) = Some n"
    using ne by (simp add: get_current_player_def)
  have "next_turn g =
      then_do (on_turn_start (g\<lparr>player_list := ?ps1, current_turn := n\<rparr>) n)
        (\<lambda>g3. Returns (start_turn_actions g3))"
    unfolding next_turn_def using False
    by (simp add: cur g1 loop cur2 actn Let_def)
  also have "\<dots> = Returns (spec_advance_turn g)"
    using two
    by (simp add: on_turn_start_eq spec_advance_turn_def n(1) start_turn_actions_def Let_def)
  finally show ?thesis .
qed

text \<open>
  C4. On every match state whose turn pointer refers to a seat, \<^verbatim>\<open>Game::next_turn\<close>
  returns, and returns the state that the specification's \<^verbatim>\<open>advance_turn\<close> describes:
  nothing changes with at most one active participant; otherwise the departing
  participant's sanctioned and arrest-blocked flags are cleared, the pointer moves
  circularly to the next active seat, the hook of that seat runs and the counter is 1.
\<close>

theorem next_turn_follows_spec:
  assumes "turn_in_range g"
  shows "next_turn g = Returns (spec_advance_turn g)"
  using assms by (rule next_turn_refines)

theorem next_turn_follows_spec_witness:
  "turn_in_range four_seats
   \<and> next_turn four_seats = Returns (spec_advance_turn four_seats)
   \<and> current_turn (spec_advance_turn four_seats) = 2
   \<and> actions_remaining (spec_advance_turn four_seats) = 1
   \<and> treasury (spec_advance_turn four_seats) = 49
   \<and> map coins (player_list (spec_advance_turn four_seats)) = [2, 0, 4, 1]
   \<and> map sanctioned (player_list (spec_advance_turn four_seats)) = [False, False, False, False]"
proof -
  have r: "turn_in_range four_seats"
    by (simp add: turn_in_range_def four_seats_def state_defs)
  have v: "current_turn (spec_advance_turn four_seats) = 2
   \<and> actions_remaining (spec_advance_turn four_seats) = 1
   \<and> treasury (spec_advance_turn four_seats) = 49
   \<and> map coins (player_list (spec_advance_turn four_seats)) = [2, 0, 4, 1]
   \<and> map sanctioned (player_list (spec_advance_turn four_seats)) = [False, False, False, False]"
    by (simp add: spec_advance_turn_def four_seats_def state_defs spec_next_active_seat_def
        spec_turn_begin_def upt_conv_Cons int32_def)
  from next_turn_follows_spec [OF r] r v show ?thesis by blast
qed

section \<open>Sums of balances in the 32-bit range\<close>

lemma int32_id: "- 2147483648 \<le> x \<Longrightarrow> x \<le> 2147483647 \<Longrightarrow> int32 x = x"
  by (simp add: int32_def)

lemma sum_int_update:
  "i < length xs \<Longrightarrow> sum_list (xs[i := v]) = sum_list xs - xs ! i + (v :: int)"
proof (induction xs arbitrary: i)
  case Nil
  then show ?case by simp
next
  case (Cons x xs)
  then show ?case by (cases i) simp_all
qed

lemma sum_coins_update:
  "i < length ps \<Longrightarrow>
     sum_list (map coins (ps[i := q])) = sum_list (map coins ps) - coins (ps ! i) + coins q"
  by (simp add: map_update sum_int_update)

lemma sum_nonneg_ints:
  "\<forall>i < length xs. 0 \<le> xs ! i \<Longrightarrow> 0 \<le> sum_list (xs :: int list)"
proof (induction xs)
  case Nil
  then show ?case by simp
next
  case (Cons x xs)
  have "0 \<le> x" using Cons.prems by (auto dest: spec [of _ 0])
  moreover have "\<forall>i < length xs. 0 \<le> xs ! i"
    using Cons.prems by (auto dest: spec [of _ "Suc i" for i])
  ultimately show ?case using Cons.IH by simp
qed

lemma nth_le_sum:
  assumes "\<forall>i < length xs. 0 \<le> xs ! i" "i < length xs"
  shows "xs ! i \<le> sum_list (xs :: int list)"
proof -
  have "\<forall>k < length (xs[i := 0]). 0 \<le> xs[i := 0] ! k"
    using assms(1,2) by (auto simp add: nth_list_update)
  then have "0 \<le> sum_list (xs[i := 0])" by (rule sum_nonneg_ints)
  then show ?thesis using assms(2) by (simp add: sum_int_update)
qed

lemma two_nth_le_sum:
  assumes "\<forall>i < length xs. 0 \<le> xs ! i" "i < length xs" "j < length xs" "i \<noteq> j"
  shows "xs ! i + xs ! j \<le> sum_list (xs :: int list)"
proof -
  have "\<forall>k < length (xs[i := 0]). 0 \<le> xs[i := 0] ! k"
    using assms(1,2) by (auto simp add: nth_list_update)
  from nth_le_sum [OF this, of j] assms(2,3,4)
  show ?thesis by (simp add: sum_int_update)
qed

lemma coin_bounds:
  assumes "coins_in_range g" "i < length (player_list g)"
  shows "0 \<le> coins (player_list g ! i)" "0 \<le> treasury g"
    "treasury g + coins (player_list g ! i) \<le> 2147483647"
proof -
  have nn: "\<forall>k < length (map coins (player_list g)). 0 \<le> map coins (player_list g) ! k"
    using assms(1) by (simp add: coins_in_range_def)
  from nth_le_sum [OF nn, of i] assms
  show "treasury g + coins (player_list g ! i) \<le> 2147483647"
    by (simp add: coins_in_range_def total_coins_def)
  show "0 \<le> coins (player_list g ! i)" "0 \<le> treasury g"
    using assms by (simp_all add: coins_in_range_def)
qed

lemma coin_bounds2:
  assumes "coins_in_range g" "i < length (player_list g)" "j < length (player_list g)" "i \<noteq> j"
  shows "treasury g + coins (player_list g ! i) + coins (player_list g ! j) \<le> 2147483647"
proof -
  have nn: "\<forall>k < length (map coins (player_list g)). 0 \<le> map coins (player_list g) ! k"
    using assms(1) by (simp add: coins_in_range_def)
  from two_nth_le_sum [OF nn, of i j] assms
  show ?thesis by (simp add: coins_in_range_def total_coins_def)
qed

section \<open>The end of an action\<close>

lemma consume_and_advance_eq:
  assumes "turn_in_range g"
  shows "consume_and_advance g =
           Returns (if actions_remaining (consume_action g) = 0
                    then spec_advance_turn (consume_action g) else consume_action g)"
proof -
  have "turn_in_range (consume_action g)"
    using assms by (simp add: consume_action_def turn_in_range_def)
  then show ?thesis
    by (simp add: consume_and_advance_def next_turn_refines Let_def)
qed

lemma consume_action_fields:
  "player_list (consume_action g) = player_list g"
  "treasury (consume_action g) = treasury g"
  "current_turn (consume_action g) = current_turn g"
  "total_coins (consume_action g) = total_coins g"
  "turn_in_range (consume_action g) = turn_in_range g"
  "coins_in_range (consume_action g) = coins_in_range g"
  by (simp_all add: consume_action_def total_coins_def turn_in_range_def coins_in_range_def)

lemma validate_action_None:
  assumes "validate_action g p = None" "turn_in_range g"
  shows "p < length (player_list g)" "current_turn g = p" "active (player_list g ! p)" "game_started g"
  using assms
  by (auto simp add: validate_action_def is_player_turn_def validate_game_state_def turn_in_range_def
      split: if_splits)

lemma advance_stay: "active_count g \<le> 1 \<Longrightarrow> spec_advance_turn g = g"
  by (simp add: spec_advance_turn_def active_count_def)

lemma advance_pass:
  assumes "turn_in_range g" "2 \<le> active_count g"
  obtains n b where "n < length (player_list g)" "n \<noteq> current_turn g"
    "active (player_list g ! n)"
    "b \<longrightarrow> role (player_list g ! n) = Merchant \<and> 3 \<le> coins (player_list g ! n) \<and> 1 \<le> treasury g"
    "spec_advance_turn g = hand_over g n b"
proof -
  let ?ps = "player_list g" and ?c = "current_turn g"
  from assms(2) have two: "2 \<le> length (filter active ?ps)" by (simp add: active_count_def)
  then have ne: "?ps \<noteq> []" by auto
  with assms have c: "?c < length ?ps" by (simp add: turn_in_range_def)
  obtain n where n: "spec_next_active_seat ?ps ?c = Some n" "n < length ?ps" "n \<noteq> ?c"
      "active (?ps ! n)"
    using spec_next_active_seat_Some [OF two c] by blast
  show ?thesis
  proof (cases "role (?ps ! n) = Merchant \<and> coins (?ps ! n) \<ge> 3 \<and> treasury g \<ge> 1")
    case True
    have "spec_advance_turn g = hand_over g n True"
      using two n True by (simp add: spec_advance_turn_def spec_turn_begin_def hand_over_def Let_def)
    with n True that [of n True] show ?thesis by simp
  next
    case False
    have same: "(?ps[?c := y])[n := ?ps ! n] = ?ps[?c := y]" for y
      using n by (subst list_update_same_conv) simp_all
    have "spec_advance_turn g =
        g\<lparr>player_list := (?ps[?c := (?ps ! ?c)\<lparr>sanctioned := False, arrest_blocked := False\<rparr>]),
          current_turn := n, actions_remaining := 1\<rparr>"
      using two n False by (auto simp add: spec_advance_turn_def spec_turn_begin_def Let_def)
    also have "\<dots> = hand_over g n False"
      by (simp add: hand_over_def same)
    finally show ?thesis using n that [of n False] by simp
  qed
qed

lemma hand_over_consume: "hand_over (consume_action g) n b = hand_over g n b"
  by (simp add: hand_over_def consume_action_def)

lemma turn_end_cases:
  assumes "turn_in_range g"
  obtains (stay) "consume_and_advance g = Returns (consume_action g)"
      "actions_remaining (consume_action g) \<noteq> 0 \<or> active_count g \<le> 1"
  | (pass) n b where "actions_remaining (consume_action g) = 0" "2 \<le> active_count g"
      "n < length (player_list g)" "n \<noteq> current_turn g" "active (player_list g ! n)"
      "b \<longrightarrow> role (player_list g ! n) = Merchant \<and> 3 \<le> coins (player_list g ! n) \<and> 1 \<le> treasury g"
      "consume_and_advance g = Returns (hand_over g n b)"
proof (cases "actions_remaining (consume_action g) \<noteq> 0 \<or> active_count g \<le> 1")
  case True
  have ac: "active_count (consume_action g) = active_count g"
    by (simp add: active_count_def consume_action_fields)
  have "consume_and_advance g = Returns (consume_action g)"
    using True assms ac by (auto simp add: consume_and_advance_eq advance_stay)
  with True stay show ?thesis by blast
next
  case False
  then have z: "actions_remaining (consume_action g) = 0" and two: "2 \<le> active_count g"
    by simp_all
  have r: "turn_in_range (consume_action g)" using assms by (simp add: consume_action_fields)
  have two': "2 \<le> active_count (consume_action g)"
    using two by (simp add: active_count_def consume_action_fields)
  obtain n b where h: "n < length (player_list (consume_action g))"
      "n \<noteq> current_turn (consume_action g)"
      "active (player_list (consume_action g) ! n)"
      "b \<longrightarrow> role (player_list (consume_action g) ! n) = Merchant
            \<and> 3 \<le> coins (player_list (consume_action g) ! n) \<and> 1 \<le> treasury (consume_action g)"
      "spec_advance_turn (consume_action g) = hand_over (consume_action g) n b"
    using advance_pass [OF r two'] by blast
  have "consume_and_advance g = Returns (hand_over g n b)"
    using assms z h(5) by (simp add: consume_and_advance_eq hand_over_consume)
  with pass [of n b] z two h(1-4) show ?thesis by (simp add: consume_action_fields)
qed

text \<open>In range, the turn-begin coin is added exactly.\<close>

lemma hand_over_conserves:
  assumes "turn_in_range g" "coins_in_range g" "n < length (player_list g)"
    "b \<longrightarrow> 1 \<le> treasury g"
  shows "coins_in_range (hand_over g n b)" "total_coins (hand_over g n b) = total_coins g"
    "turn_in_range (hand_over g n b)"
    "length (player_list (hand_over g n b)) = length (player_list g)"
proof -
  let ?ps = "player_list g" and ?c = "current_turn g"
  let ?cl = "?ps[?c := (?ps ! ?c)\<lparr>sanctioned := False, arrest_blocked := False\<rparr>]"
  have up: "int32 (coins (?ps ! n) + 1) = coins (?ps ! n) + 1" if b
    using coin_bounds [OF assms(2,3)] assms(4) that by (intro int32_id) simp_all
  have ccl: "coins (?cl ! i) = coins (?ps ! i)" if "i < length ?ps" for i
    using that by (cases "i = ?c") simp_all
  have scl: "sum_list (map coins ?cl) = sum_list (map coins ?ps)"
    by (cases "?c < length ?ps") (simp_all add: sum_coins_update list_update_beyond not_less)
  show tot: "total_coins (hand_over g n b) = total_coins g"
    using assms(3) up ccl [OF assms(3)] scl
    by (simp add: hand_over_def total_coins_def sum_coins_update)
  have nn: "0 \<le> coins (player_list (hand_over g n b) ! i)" if "i < length ?ps" for i
    using that assms(3) up ccl [OF that] coin_bounds(1) [OF assms(2) that]
    by (cases "i = n") (auto simp add: hand_over_def)
  show "coins_in_range (hand_over g n b)"
    using assms(2,4) nn tot unfolding coins_in_range_def
    by (auto simp add: hand_over_def)
  show "turn_in_range (hand_over g n b)" using assms(3) by (simp add: hand_over_def turn_in_range_def)
  show "length (player_list (hand_over g n b)) = length (player_list g)"
    by (simp add: hand_over_def)
qed

lemma conserved_Throws:
  "turn_in_range g \<Longrightarrow> coins_in_range g \<Longrightarrow> conserved g (Throws e g)"
  by (simp add: conserved_def)

lemma conserved_advance:
  assumes "turn_in_range g1" "coins_in_range g1" "total_coins g1 = total_coins g"
    "length (player_list g1 ) = length (player_list g)"
  shows "conserved g (consume_and_advance g1)"
  using assms(1)
proof (cases rule: turn_end_cases)
  case stay
  then show ?thesis using assms by (simp add: conserved_def consume_action_fields)
next
  case (pass n b)
  with hand_over_conserves [OF assms(1,2) pass(3), of b] assms(3,4)
  show ?thesis by (simp add: conserved_def)
qed

section \<open>Conservation of coins\<close>

lemmas range_defs =
  coins_in_range_def total_coins_def turn_in_range_def sum_coins_update nth_list_update int32_id

lemma gather_conserved:
  assumes "turn_in_range g" "coins_in_range g"
  shows "conserved g (gather g p)"
proof (cases "validate_action g p")
  case (Some e)
  then show ?thesis using assms by (simp add: gather_def conserved_Throws)
next
  case None
  then have p: "p < length (player_list g)" using assms validate_action_None by blast
  note b = coin_bounds [OF assms(2) p]
  show ?thesis
    unfolding gather_def None using assms p b
    by (auto simp add: effect_defs range_defs intro!: conserved_Throws conserved_advance)
qed

lemma tax_conserved:
  assumes "turn_in_range g" "coins_in_range g"
  shows "conserved g (tax g p)"
proof (cases "validate_action g p")
  case (Some e)
  then show ?thesis using assms by (simp add: tax_def conserved_Throws)
next
  case None
  then have p: "p < length (player_list g)" using assms validate_action_None by blast
  note b = coin_bounds [OF assms(2) p]
  show ?thesis
    unfolding tax_def None using assms p b
    by (auto simp add: effect_defs range_defs Let_def intro!: conserved_Throws conserved_advance)
qed

lemma bribe_conserved:
  assumes "turn_in_range g" "coins_in_range g"
  shows "conserved g (bribe g p)"
proof (cases "validate_action g p")
  case (Some e)
  then show ?thesis using assms by (simp add: bribe_def conserved_Throws)
next
  case None
  then have p: "p < length (player_list g)" using assms validate_action_None by blast
  note b = coin_bounds [OF assms(2) p]
  show ?thesis
    unfolding bribe_def None using assms p b
    by (auto simp add: effect_defs validate_coins_def range_defs
        intro!: conserved_Throws conserved_advance)
qed

lemma invest_conserved:
  assumes "turn_in_range g" "coins_in_range g"
  shows "conserved g (invest g p)"
proof (cases "validate_action g p")
  case (Some e)
  then show ?thesis using assms by (simp add: invest_def conserved_Throws)
next
  case None
  then have p: "p < length (player_list g)" using assms validate_action_None by blast
  note b = coin_bounds [OF assms(2) p]
  show ?thesis
    unfolding invest_def None using assms p b
    by (auto simp add: effect_defs validate_coins_def range_defs
        intro!: conserved_Throws conserved_advance)
qed

lemma coup_conserved:
  assumes "turn_in_range g" "coins_in_range g" "t < length (player_list g)"
  shows "conserved g (coup g p t)"
proof (cases "validate_action g p")
  case (Some e)
  then show ?thesis using assms by (simp add: coup_def conserved_Throws)
next
  case None
  then have p: "p < length (player_list g)" using assms validate_action_None by blast
  note b = coin_bounds [OF assms(2) p] coin_bounds [OF assms(2,3)]
  have b2: "t \<noteq> p \<Longrightarrow> treasury g + coins (player_list g ! p) + coins (player_list g ! t) \<le> 2147483647"
    using coin_bounds2 [OF assms(2) p assms(3)] by blast
  show ?thesis
    unfolding coup_def None using assms p b b2
    by (auto simp add: effect_defs validate_coins_def validate_target_def range_defs
        intro!: conserved_Throws conserved_advance)
qed

lemma sanction_conserved:
  assumes "turn_in_range g" "coins_in_range g" "t < length (player_list g)"
  shows "conserved g (sanction g p t)"
proof (cases "validate_action g p")
  case (Some e)
  then show ?thesis using assms by (simp add: sanction_def conserved_Throws)
next
  case None
  then have p: "p < length (player_list g)" using assms validate_action_None by blast
  note b = coin_bounds [OF assms(2) p] coin_bounds [OF assms(2,3)]
  have b2: "t \<noteq> p \<Longrightarrow> treasury g + coins (player_list g ! p) + coins (player_list g ! t) \<le> 2147483647"
    using coin_bounds2 [OF assms(2) p assms(3)] by blast
  show ?thesis
    unfolding sanction_def None using assms p b b2
    by (auto simp add: effect_defs validate_coins_def validate_target_def range_defs Let_def
        intro!: conserved_Throws conserved_advance)
qed

lemma arrest_conserved:
  assumes "turn_in_range g" "coins_in_range g" "t < length (player_list g)"
  shows "conserved g (arrest g p t)"
proof (cases "validate_action g p")
  case (Some e)
  then show ?thesis using assms by (simp add: arrest_def conserved_Throws)
next
  case None
  then have p: "p < length (player_list g)" using assms validate_action_None by blast
  note b = coin_bounds [OF assms(2) p] coin_bounds [OF assms(2,3)]
  have b2: "t \<noteq> p \<Longrightarrow> treasury g + coins (player_list g ! p) + coins (player_list g ! t) \<le> 2147483647"
    using coin_bounds2 [OF assms(2) p assms(3)] by blast
  consider (general) "role (player_list g ! t) = General"
    | (merchant) "role (player_list g ! t) = Merchant"
    | (other) "role (player_list g ! t) \<noteq> General" "role (player_list g ! t) \<noteq> Merchant"
    by blast
  then show ?thesis
  proof cases
    case general
    show ?thesis
      unfolding arrest_def None using assms p general
      by (auto simp add: set_last_arrested_player_def validate_target_def coins_in_range_def
          total_coins_def turn_in_range_def intro!: conserved_Throws conserved_advance)
  next
    case merchant
    show ?thesis
      unfolding arrest_def None using assms p b b2 merchant
      by (auto simp add: effect_defs validate_target_def range_defs Let_def
          intro!: conserved_Throws conserved_advance)
  next
    case other
    show ?thesis
      unfolding arrest_def None using assms p b b2 other
      by (auto simp add: effect_defs validate_target_def range_defs Let_def
          intro!: conserved_Throws conserved_advance)
  qed
qed

lemma performAction_conserved:
  assumes "turn_in_range g" "coins_in_range g" "\<forall>x. target = Some x \<longrightarrow> x < length (player_list g)"
  shows "conserved g (performAction g action actor target)"
proof -
  have same: "conserved g (Returns g)" using assms by (simp add: conserved_def)
  show ?thesis
    unfolding performAction_def
    using assms same
    by (simp add: gather_conserved tax_conserved bribe_conserved invest_conserved
        arrest_conserved sanction_conserved coup_conserved conserved_Throws)
qed

lemma commit_all_conserved:
  assumes "turn_in_range g" "coins_in_range g"
    "\<forall>(a, p, t) \<in> set acts. \<forall>x. t = Some x \<longrightarrow> x < length (player_list g)"
  shows "\<exists>g'. commit_all g acts = Some g' \<and> coins_in_range g' \<and> total_coins g' = total_coins g"
  using assms
proof (induction acts arbitrary: g)
  case Nil
  then show ?case by simp
next
  case (Cons act acts)
  obtain a p t where act: "act = (a, p, t)" by (cases act)
  have "\<forall>x. t = Some x \<longrightarrow> x < length (player_list g)" using Cons.prems(3) act by simp
  then have c: "conserved g (performAction g a p t)"
    using Cons.prems performAction_conserved by blast
  then obtain g1 where g1: "final_state (performAction g a p t) = Some g1" "turn_in_range g1"
      "coins_in_range g1" "total_coins g1 = total_coins g"
      "length (player_list g1) = length (player_list g)"
    by (auto simp add: conserved_def split: option.splits)
  have "\<forall>(a, p, t) \<in> set acts. \<forall>x. t = Some x \<longrightarrow> x < length (player_list g1)"
    using Cons.prems(3) g1(5) by auto
  from Cons.IH [OF g1(2) g1(3) this] g1 act show ?case by auto
qed

lemma turn_end_coins:
  assumes "turn_in_range g" "coins_in_range g" "consume_and_advance g = Returns g'"
  shows "\<exists>b :: int.
      (b = 0 \<or> b = 1 \<and> current_turn g' \<noteq> current_turn g
                  \<and> role (player_list g ! current_turn g') = Merchant)
    \<and> treasury g' = treasury g - b
    \<and> (\<forall>i < length (player_list g).
          coins (player_list g' ! i)
            = coins (player_list g ! i) + (if i = current_turn g' then b else 0)
        \<and> role (player_list g' ! i) = role (player_list g ! i)
        \<and> (i \<noteq> current_turn g \<longrightarrow>
              sanctioned (player_list g' ! i) = sanctioned (player_list g ! i)))"
  using assms(1)
proof (cases rule: turn_end_cases)
  case stay
  with assms(3) have "g' = consume_action g" by simp
  then show ?thesis by (intro exI [of _ 0]) (simp add: consume_action_fields)
next
  case (pass n b)
  with assms(3) have g': "g' = hand_over g n b" by simp
  have up: "int32 (coins (player_list g ! n) + 1) = coins (player_list g ! n) + 1" if b
    using coin_bounds [OF assms(2) pass(3)] pass(6) that by (intro int32_id) simp_all
  have ct: "current_turn g' = n" unfolding g' by (simp add: hand_over_def)
  have 1: "(if b then 1 else 0) = (0::int) \<or> (if b then 1 else 0) = (1::int)
        \<and> current_turn g' \<noteq> current_turn g \<and> role (player_list g ! current_turn g') = Merchant"
    using pass(4,6) ct by simp
  have 2: "treasury g' = treasury g - (if b then 1 else 0)"
    unfolding g' by (simp add: hand_over_def)
  have 3: "coins (player_list g' ! i)
        = coins (player_list g ! i) + (if i = current_turn g' then if b then 1 else 0 else 0)"
    if "i < length (player_list g)" for i
    using that pass(3,4) up unfolding ct unfolding g'
    by (cases "i = current_turn g") (auto simp add: hand_over_def nth_list_update)
  have 4: "role (player_list g' ! i) = role (player_list g ! i)"
    if "i < length (player_list g)" for i
    using that pass(3) unfolding g'
    by (cases "i = current_turn g") (auto simp add: hand_over_def nth_list_update)
  have 5: "sanctioned (player_list g' ! i) = sanctioned (player_list g ! i)"
    if "i < length (player_list g)" "i \<noteq> current_turn g" for i
    using that pass(3) unfolding g'
    by (auto simp add: hand_over_def nth_list_update)
  from 1 2 3 4 5 show ?thesis by (intro exI [of _ "if b then 1 else 0"]) blast
qed

lemma int32_plus2:
  assumes "0 \<le> x" "x \<le> 2147483647"
  shows "int32 (x + 2) \<noteq> 0" "int32 (x + 2) \<noteq> 1"
proof -
  consider "x \<le> 2147483645" | "x = 2147483646" | "x = 2147483647" using assms by linarith
  then have "int32 (x + 2) \<noteq> 0 \<and> int32 (x + 2) \<noteq> 1"
  proof cases
    case 1
    then have "int32 (x + 2) = x + 2" using assms by (intro int32_id) simp_all
    then show ?thesis using assms by simp
  next
    case 2
    then show ?thesis by (simp add: int32_def)
  next
    case 3
    then show ?thesis by (simp add: int32_def)
  qed
  then show "int32 (x + 2) \<noteq> 0" "int32 (x + 2) \<noteq> 1" by simp_all
qed

lemma bribe_stays:
  assumes "bribe g p = Returns g'" "0 \<le> actions_remaining g" "actions_remaining g \<le> 2147483647"
  shows "g' = consume_action
           (g\<lparr>player_list := (player_list g)[p := (player_list g ! p)
                                  \<lparr>coins := int32 (coins (player_list g ! p) - 4)\<rparr>],
              treasury := int32 (treasury g + 4),
              actions_remaining := int32 (actions_remaining g + 2)\<rparr>)"
  using assms int32_plus2 [OF assms(2,3)]
  by (auto simp add: bribe_def effect_defs validate_coins_def consume_and_advance_def
      consume_action_def Let_def split: option.splits if_splits)

lemma bribe_effect:
  assumes "bribe g p = Returns g'" "0 \<le> actions_remaining g" "actions_remaining g \<le> 2147483647"
    "turn_in_range g" "coins_in_range g"
  shows "treasury g' = treasury g + 4" "coins (player_list g' ! p) = coins (player_list g ! p) - 4"
proof -
  from assms(1) have va: "validate_action g p = None" and c4: "4 \<le> coins (player_list g ! p)"
    by (auto simp add: bribe_def validate_coins_def split: option.splits if_splits)
  then have p: "p < length (player_list g)" using assms(4) validate_action_None by blast
  note b = coin_bounds [OF assms(5) p]
  have "int32 (treasury g + 4) = treasury g + 4" using b c4 by (intro int32_id) simp_all
  moreover have "int32 (coins (player_list g ! p) - 4) = coins (player_list g ! p) - 4"
    using b c4 by (intro int32_id) simp_all
  ultimately show "treasury g' = treasury g + 4"
    "coins (player_list g' ! p) = coins (player_list g ! p) - 4"
    using bribe_stays [OF assms(1,2,3)] p by (simp_all add: consume_action_def)
qed

lemma coup_effect:
  assumes "coup g p t = Returns g'" "turn_in_range g" "coins_in_range g" "t < length (player_list g)"
  shows "coins (player_list g' ! p) = coins (player_list g ! p) - 7
     \<and> (treasury g' = treasury g + 7
        \<or> treasury g' = treasury g + 6 \<and> current_turn g' \<noteq> p
          \<and> role (player_list g' ! current_turn g') = Merchant
          \<and> coins (player_list g' ! current_turn g') = coins (player_list g ! current_turn g') + 1)"
proof -
  let ?g1 = "deactivate (g\<lparr>player_list := (player_list g)[p := (player_list g ! p)\<lparr>coins := coins (player_list g ! p) - 7\<rparr>],
              treasury := treasury g + 7\<rparr>) t"
  from assms(1) have va: "validate_action g p = None" and tp: "t \<noteq> p"
    and c7: "7 \<le> coins (player_list g ! p)"
    by (auto simp add: coup_def validate_coins_def split: option.splits if_splits)
  from va assms(2) have p: "p < length (player_list g)" "current_turn g = p"
    using validate_action_None by blast+
  note b = coin_bounds [OF assms(3) p(1)]
  have i1: "int32 (treasury g + 7) = treasury g + 7" using b c7 by (intro int32_id) simp_all
  have i2: "int32 (coins (player_list g ! p) - 7) = coins (player_list g ! p) - 7"
    using b c7 by (intro int32_id) simp_all
  from assms(1) va tp c7 have run: "consume_and_advance ?g1 = Returns g'"
    by (auto simp add: coup_def effect_defs validate_coins_def i1 i2 split: option.splits if_splits)
  have c: "conserved g (coup g p t)" using assms(2,3,4) by (rule coup_conserved)
  have r1: "turn_in_range ?g1" using assms(2) by (simp add: turn_in_range_def deactivate_def)
  have c1: "coins (player_list ?g1 ! i) = (if i = p then coins (player_list g ! p) - 7 else coins (player_list g ! i))"
    and ro1: "role (player_list ?g1 ! i) = role (player_list g ! i)"
    if "i < length (player_list g)" for i
    using that p tp assms(4) by (auto simp add: deactivate_def nth_list_update)
  have t1: "treasury ?g1 = treasury g + 7" and l1: "length (player_list ?g1) = length (player_list g)"
    and ct1: "current_turn ?g1 = p"
    using p by (simp_all add: deactivate_def)
  have s1: "sum_list (map coins (player_list ?g1)) = sum_list (map coins (player_list g)) - 7"
    using p assms(4) tp by (simp add: deactivate_def sum_coins_update nth_list_update)
  have in1: "coins_in_range ?g1"
    using assms(3) c1 c7 t1 l1 s1 unfolding coins_in_range_def total_coins_def by auto
  from turn_end_coins [OF r1 in1 run] obtain b :: int where
    b: "b = 0 \<or> b = 1 \<and> current_turn g' \<noteq> current_turn ?g1
                 \<and> role (player_list ?g1 ! current_turn g') = Merchant"
    and tr: "treasury g' = treasury ?g1 - b"
    and al: "\<forall>i < length (player_list ?g1).
          coins (player_list g' ! i)
            = coins (player_list ?g1 ! i) + (if i = current_turn g' then b else 0)
        \<and> role (player_list g' ! i) = role (player_list ?g1 ! i)
        \<and> (i \<noteq> current_turn ?g1 \<longrightarrow>
              sanctioned (player_list g' ! i) = sanctioned (player_list ?g1 ! i))"
    by blast
  have co: "coins (player_list g' ! i)
            = coins (player_list ?g1 ! i) + (if i = current_turn g' then b else 0)"
    and ro: "role (player_list g' ! i) = role (player_list ?g1 ! i)"
    if "i < length (player_list ?g1)" for i
    using al that by blast+
  from c run have rg': "turn_in_range g'" "length (player_list g') = length (player_list g)"
    using assms(1) by (simp_all add: conserved_def)
  have n: "current_turn g' < length (player_list g)"
    using rg' p(1) by (auto simp add: turn_in_range_def)
  have cp: "coins (player_list g' ! p) = coins (player_list g ! p) - 7"
    using co [of p] c1 [OF p(1)] p(1) l1 b ct1 by auto
  have "b = 1 \<Longrightarrow> coins (player_list g' ! current_turn g') = coins (player_list g ! current_turn g') + 1"
    using co [of "current_turn g'"] c1 [OF n] n l1 b ct1 by auto
  moreover have "role (player_list g' ! current_turn g') = role (player_list ?g1 ! current_turn g')"
    using ro [of "current_turn g'"] n l1 by simp
  ultimately show ?thesis using cp b tr t1 ct1 by auto
qed

lemma turn_end_range:
  assumes "turn_in_range g" "consume_and_advance g = Returns g'"
  shows "turn_in_range g'" "length (player_list g') = length (player_list g)"
proof -
  from assms(1) have "turn_in_range g' \<and> length (player_list g') = length (player_list g)"
  proof (cases rule: turn_end_cases)
    case stay
    with assms show ?thesis by (auto simp add: consume_action_fields)
  next
    case (pass n b)
    with assms(2) have "g' = hand_over g n b" by simp
    with pass(3) show ?thesis by (simp add: hand_over_def turn_in_range_def)
  qed
  then show "turn_in_range g'" "length (player_list g') = length (player_list g)" by simp_all
qed

text \<open>
  What the end of an action does to the coins when seat \<open>p\<close> is on turn: nothing, or the
  turn passes to a Merchant who takes one coin from the treasury.
\<close>

lemma turn_end_pays:
  assumes "consume_and_advance g1 = Returns g'" "turn_in_range g1" "coins_in_range g1"
    "current_turn g1 = p" "p < length (player_list g1)"
  shows "(\<forall>i < length (player_list g1). coins (player_list g' ! i) = coins (player_list g1 ! i))
           \<and> treasury g' = treasury g1
       \<or> (\<forall>i < length (player_list g1). i \<noteq> current_turn g' \<longrightarrow>
              coins (player_list g' ! i) = coins (player_list g1 ! i))
           \<and> treasury g' = treasury g1 - 1 \<and> current_turn g' \<noteq> p
           \<and> current_turn g' < length (player_list g1)
           \<and> role (player_list g1 ! current_turn g') = Merchant
           \<and> role (player_list g' ! current_turn g') = Merchant
           \<and> coins (player_list g' ! current_turn g') = coins (player_list g1 ! current_turn g') + 1"
proof -
  from turn_end_coins [OF assms(2,3,1)] obtain b :: int where
    b: "b = 0 \<or> b = 1 \<and> current_turn g' \<noteq> current_turn g1
                 \<and> role (player_list g1 ! current_turn g') = Merchant"
    and tr: "treasury g' = treasury g1 - b"
    and al: "\<forall>i < length (player_list g1).
          coins (player_list g' ! i)
            = coins (player_list g1 ! i) + (if i = current_turn g' then b else 0)
        \<and> role (player_list g' ! i) = role (player_list g1 ! i)
        \<and> (i \<noteq> current_turn g1 \<longrightarrow>
              sanctioned (player_list g' ! i) = sanctioned (player_list g1 ! i))"
    by blast
  have co: "coins (player_list g' ! i)
            = coins (player_list g1 ! i) + (if i = current_turn g' then b else 0)"
    and ro: "role (player_list g' ! i) = role (player_list g1 ! i)"
    if "i < length (player_list g1)" for i
    using al that by blast+
  note rg = turn_end_range [OF assms(2,1)]
  have n: "current_turn g' < length (player_list g1)"
    using rg assms(5) by (auto simp add: turn_in_range_def)
  from b show ?thesis
  proof
    assume "b = 0"
    with co tr show ?thesis by simp
  next
    assume b1: "b = 1 \<and> current_turn g' \<noteq> current_turn g1
                 \<and> role (player_list g1 ! current_turn g') = Merchant"
    with co tr n ro [OF n] assms(4) show ?thesis by simp
  qed
qed

lemma bribe_pays:
  assumes "bribe g p = Returns g'" "turn_in_range g" "coins_in_range g"
  shows "coins (player_list g' ! p) = coins (player_list g ! p) - 4
     \<and> (treasury g' = treasury g + 4
        \<or> treasury g' = treasury g + 3 \<and> current_turn g' \<noteq> p
          \<and> role (player_list g' ! current_turn g') = Merchant
          \<and> coins (player_list g' ! current_turn g') = coins (player_list g ! current_turn g') + 1)"
proof -
  let ?g1 = "g\<lparr>player_list := (player_list g)[p := (player_list g ! p)\<lparr>coins := coins (player_list g ! p) - 4\<rparr>],
              treasury := treasury g + 4, actions_remaining := int32 (actions_remaining g + 2)\<rparr>"
  from assms(1) have va: "validate_action g p = None" and c4: "4 \<le> coins (player_list g ! p)"
    by (auto simp add: bribe_def validate_coins_def split: option.splits if_splits)
  from va assms(2) have p: "p < length (player_list g)" "current_turn g = p"
    using validate_action_None by blast+
  note b = coin_bounds [OF assms(3) p(1)]
  have i1: "int32 (treasury g + 4) = treasury g + 4" using b c4 by (intro int32_id) simp_all
  have i2: "int32 (coins (player_list g ! p) - 4) = coins (player_list g ! p) - 4"
    using b c4 by (intro int32_id) simp_all
  from assms(1) va c4 have run: "consume_and_advance ?g1 = Returns g'"
    by (auto simp add: bribe_def effect_defs validate_coins_def i1 i2 split: option.splits if_splits)
  have r1: "turn_in_range ?g1" using assms(2) by (simp add: turn_in_range_def)
  have c1: "coins (player_list ?g1 ! i)
      = (if i = p then coins (player_list g ! p) - 4 else coins (player_list g ! i))"
    if "i < length (player_list g)" for i
    using that p by (auto simp add: nth_list_update)
  have t1: "treasury ?g1 = treasury g + 4" and l1: "length (player_list ?g1) = length (player_list g)"
    and ct1: "current_turn ?g1 = p" and p1: "p < length (player_list ?g1)"
    using p by simp_all
  have s1: "sum_list (map coins (player_list ?g1)) = sum_list (map coins (player_list g)) - 4"
    using p by (simp add: sum_coins_update)
  have in1: "coins_in_range ?g1"
    using assms(3) c1 c4 t1 l1 s1 unfolding coins_in_range_def total_coins_def by auto
  from turn_end_pays [OF run r1 in1 ct1 p1] show ?thesis
  proof
    assume "(\<forall>i < length (player_list ?g1). coins (player_list g' ! i) = coins (player_list ?g1 ! i))
           \<and> treasury g' = treasury ?g1"
    with p(1) show ?thesis by simp
  next
    assume h: "(\<forall>i < length (player_list ?g1). i \<noteq> current_turn g' \<longrightarrow>
              coins (player_list g' ! i) = coins (player_list ?g1 ! i))
           \<and> treasury g' = treasury ?g1 - 1 \<and> current_turn g' \<noteq> p
           \<and> current_turn g' < length (player_list ?g1)
           \<and> role (player_list ?g1 ! current_turn g') = Merchant
           \<and> role (player_list g' ! current_turn g') = Merchant
           \<and> coins (player_list g' ! current_turn g') = coins (player_list ?g1 ! current_turn g') + 1"
    then have n: "current_turn g' < length (player_list g)" "current_turn g' \<noteq> p" by simp_all
    from h p(1) n have "coins (player_list g' ! p) = coins (player_list ?g1 ! p)" by simp
    with h c1 [OF p(1)] c1 [OF n(1)] n(2) show ?thesis by simp
  qed
qed

text \<open>
  C2. From any match state with the turn pointer in range and the coins in range (no
  balance negative and a total of at most 2147483647, so that no 32-bit addition wraps),
  every sequence of commits (Gather, Tax, Bribe, Invest, Arrest, Sanction, Coup, by any
  seat on any seated target, accepted or thrown) ends in a state whose treasury is not
  negative, whose total of coins is the same and whose coins are in range again. A bribe
  takes exactly 4 coins from the actor and a coup exactly 7, and puts them into the
  treasury; when the action ends the turn and the next seat is a Merchant entitled to its
  turn-begin coin, that coin has left the treasury again when the call returns. A bribe
  called with a counter from 0 to 2147483647 does not end the turn, so the treasury has
  gained exactly 4.
\<close>

theorem treasury_and_total_invariant:
  assumes "turn_in_range g" and "coins_in_range g"
    and "\<forall>(a, p, t) \<in> set acts. \<forall>x. t = Some x \<longrightarrow> x < length (player_list g)"
  shows "(\<exists>g'. commit_all g acts = Some g' \<and> 0 \<le> treasury g' \<and> total_coins g' = total_coins g
             \<and> coins_in_range g')
     \<and> (\<forall>p g'. bribe g p = Returns g' \<longrightarrow>
           coins (player_list g' ! p) = coins (player_list g ! p) - 4
           \<and> (treasury g' = treasury g + 4
              \<or> treasury g' = treasury g + 3 \<and> current_turn g' \<noteq> p
                \<and> role (player_list g' ! current_turn g') = Merchant
                \<and> coins (player_list g' ! current_turn g')
                    = coins (player_list g ! current_turn g') + 1)
           \<and> (0 \<le> actions_remaining g \<and> actions_remaining g \<le> 2147483647 \<longrightarrow>
                 treasury g' = treasury g + 4))
     \<and> (\<forall>p t g'. coup g p t = Returns g' \<and> t < length (player_list g) \<longrightarrow>
           coins (player_list g' ! p) = coins (player_list g ! p) - 7
           \<and> (treasury g' = treasury g + 7
              \<or> treasury g' = treasury g + 6 \<and> current_turn g' \<noteq> p
                \<and> role (player_list g' ! current_turn g') = Merchant
                \<and> coins (player_list g' ! current_turn g')
                    = coins (player_list g ! current_turn g') + 1))"
proof (intro conjI allI impI)
  from commit_all_conserved [OF assms]
  show "\<exists>g'. commit_all g acts = Some g' \<and> 0 \<le> treasury g' \<and> total_coins g' = total_coins g
             \<and> coins_in_range g'"
    by (auto simp add: coins_in_range_def)
next
  fix p g'
  assume b: "bribe g p = Returns g'"
  note e = bribe_pays [OF b assms(1,2)]
  from e show "coins (player_list g' ! p) = coins (player_list g ! p) - 4" by blast
  from e show "treasury g' = treasury g + 4
              \<or> treasury g' = treasury g + 3 \<and> current_turn g' \<noteq> p
                \<and> role (player_list g' ! current_turn g') = Merchant
                \<and> coins (player_list g' ! current_turn g')
                    = coins (player_list g ! current_turn g') + 1" by blast
  assume "0 \<le> actions_remaining g \<and> actions_remaining g \<le> 2147483647"
  then show "treasury g' = treasury g + 4"
    using bribe_effect(1) [OF b _ _ assms(1,2)] by blast
next
  fix p t g'
  assume c: "coup g p t = Returns g' \<and> t < length (player_list g)"
  then have e: "coins (player_list g' ! p) = coins (player_list g ! p) - 7
     \<and> (treasury g' = treasury g + 7
        \<or> treasury g' = treasury g + 6 \<and> current_turn g' \<noteq> p
          \<and> role (player_list g' ! current_turn g') = Merchant
          \<and> coins (player_list g' ! current_turn g') = coins (player_list g ! current_turn g') + 1)"
    using coup_effect assms(1,2) by blast
  from e show "coins (player_list g' ! p) = coins (player_list g ! p) - 7" by blast
  from e show "treasury g' = treasury g + 7
              \<or> treasury g' = treasury g + 6 \<and> current_turn g' \<noteq> p
                \<and> role (player_list g' ! current_turn g') = Merchant
                \<and> coins (player_list g' ! current_turn g')
                    = coins (player_list g ! current_turn g') + 1" by blast
qed

theorem treasury_and_total_invariant_witness:
  "turn_in_range three_seats \<and> 0 \<le> treasury three_seats \<and> total_coins three_seats = 65
   \<and> 1 < length (player_list three_seats)
   \<and> (\<exists>g'. commit_all three_seats [(''Bribe'', 0, None), (''Tax'', 0, None), (''Coup'', 0, Some 1)] = Some g'
          \<and> 0 \<le> treasury g' \<and> total_coins g' = total_coins three_seats)
   \<and> 0 \<le> actions_remaining three_seats \<and> actions_remaining three_seats \<le> 2147483647
   \<and> (\<exists>g'. bribe three_seats 0 = Returns g' \<and> treasury g' = treasury three_seats + 4
          \<and> coins (player_list g' ! 0) = coins (player_list three_seats ! 0) - 4)
   \<and> (\<exists>g'. coup three_seats 0 1 = Returns g'
          \<and> coins (player_list g' ! 0) = coins (player_list three_seats ! 0) - 7
          \<and> treasury g' = treasury three_seats + 6)"
proof -
  have r: "turn_in_range three_seats"
    and a: "0 \<le> actions_remaining three_seats" "actions_remaining three_seats \<le> 2147483647"
    and l: "1 < length (player_list three_seats)"
    and n: "0 \<le> treasury three_seats" "total_coins three_seats = 65"
    by (simp_all add: turn_in_range_def total_coins_def three_seats_def state_defs)
  have t: "coins_in_range three_seats"
    by (simp add: coins_in_range_def total_coins_def three_seats_def state_defs less_Suc_eq)
  have s: "\<forall>(a, p, t) \<in> set [(''Bribe'', 0, None), (''Tax'', 0, None), (''Coup'', 0, Some 1)].
         \<forall>x. t = Some x \<longrightarrow> x < length (player_list three_seats)"
    by (simp add: three_seats_def state_defs)
  obtain gb where gb: "bribe three_seats 0 = Returns gb"
    by (simp add: three_seats_def state_defs bribe_def engine_defs)
  obtain gc where gc: "coup three_seats 0 1 = Returns gc" "treasury gc = 56"
    by (simp add: three_seats_def state_defs coup_def engine_defs)
  have t50: "treasury three_seats = 50" by (simp add: three_seats_def state_defs)
  note inv = treasury_and_total_invariant [OF r t s]
  from inv have 1: "\<exists>g'. commit_all three_seats [(''Bribe'', 0, None), (''Tax'', 0, None), (''Coup'', 0, Some 1)] = Some g'
          \<and> 0 \<le> treasury g' \<and> total_coins g' = total_coins three_seats" by blast
  from inv gb a have 2: "treasury gb = treasury three_seats + 4
          \<and> coins (player_list gb ! 0) = coins (player_list three_seats ! 0) - 4" by blast
  from inv gc l have 3: "coins (player_list gc ! 0) = coins (player_list three_seats ! 0) - 7" by blast
  from r n l 1 a gb 2 gc 3 t50 show ?thesis by auto
qed

section \<open>The action counter\<close>










lemma map_field_update:
  "f y = f (xs ! i) \<Longrightarrow> map f (xs[i := y]) = map f xs"
  by (induction xs arbitrary: i) (auto split: nat.splits)















text \<open>
  C5, as the claim states it, fails: seven commits from a new match of two end it with a
  coup, on turn of the survivor and with the counter at 0; the Gather that the survivor
  commits next is carried out and consumes nothing, the counter is 0 before and after.
\<close>

theorem counter_zero_commit_counterexample:
  "run_calls Game [Join (Player Governor ''Alice''), Join (Player Spy ''Bob''), Start,
       Commit ''Tax'' 0 None, Commit ''Gather'' 1 None, Commit ''Tax'' 0 None,
       Commit ''Gather'' 1 None, Commit ''Tax'' 0 None, Commit ''Gather'' 1 None,
       Commit ''Coup'' 0 (Some 1)] = Some over_table
   \<and> actions_remaining over_table = 0
   \<and> performAction over_table ''Gather'' 0 None
       = Returns (over_table\<lparr>player_list := [seat ''Alice'' Governor 3,
                                               (seat ''Bob'' Spy 3)\<lparr>active := False\<rparr>],
                             treasury := 44\<rparr>)
   \<and> actions_remaining (over_table\<lparr>player_list := [seat ''Alice'' Governor 3,
                                               (seat ''Bob'' Spy 3)\<lparr>active := False\<rparr>],
                             treasury := 44\<rparr>) = 0"
  by (simp add: over_table_def state_defs add_player_def validate_player_count_def start_game_def
      commit_defs)



section \<open>Reachable states\<close>











text \<open>
  C10, as the claim states it, fails: \<^verbatim>\<open>add_extra_actions\<close> is public and adds its
  argument unchecked, so \<^verbatim>\<open>add_extra_actions(-2)\<close> on a new match leaves the counter at
  -1; and at the top of the 32-bit range the addition of 2 wraps to a negative counter.
\<close>

theorem counter_negative_counterexample:
  "0 \<le> actions_remaining Game
   \<and> actions_remaining (add_extra_actions Game (- 2)) = - 1
   \<and> run_calls Game [ExtraActions (- 2)] = Some (Game\<lparr>actions_remaining := - 1\<rparr>)
   \<and> actions_remaining (add_extra_actions (Game\<lparr>actions_remaining := 2147483646\<rparr>) 2)
       = - 2147483648"
  by (simp add: Game_def add_extra_actions_def int32_def)



section \<open>The global arrest restriction\<close>

lemma records_arrest_Throws: "records_arrest g t (Throws e g)"
  by (simp add: records_arrest_def)

lemma records_arrest_advance:
  "map name (player_list g0) = map name (player_list g) \<Longrightarrow> current_turn g0 = current_turn g \<Longrightarrow>
   nm = name (player_list g ! t) \<Longrightarrow>
   records_arrest g t (consume_and_advance (set_last_arrested_player g0 nm))"
  by (auto simp add: records_arrest_def)

lemma arrest_records:
  assumes "t < length (player_list g)"
  shows "records_arrest g t (arrest g p t)"
  using assms
  by (auto simp add: arrest_def add_coins_def remove_coins_def add_to_treasury_def Let_def
      map_field_update nth_list_update
      split: option.splits intro!: records_arrest_Throws records_arrest_advance)

lemma turn_end_names:
  assumes "turn_in_range g" "consume_and_advance g = Returns g'"
  shows "last_arrested_player g' = last_arrested_player g
     \<and> map name (player_list g') = map name (player_list g)"
  using assms(1)
proof (cases rule: turn_end_cases)
  case stay
  with assms(2) show ?thesis by (auto simp add: consume_action_def)
next
  case (pass n b)
  with assms(2) have g': "g' = hand_over g n b" by simp
  have "map name (player_list (hand_over g n b)) = map name (player_list g)"
    using pass(3,4) by (simp add: hand_over_def map_field_update)
  then show ?thesis unfolding g' by (simp add: hand_over_def)
qed

lemma arrest_recorded:
  assumes "arrest g q t = Returns g1" "turn_in_range g" "t < length (player_list g)"
  shows "last_arrested_player g1 = name (player_list g1 ! t)"
proof -
  from arrest_records [OF assms(3), of q] assms(1)
  obtain g0 where g0: "consume_and_advance (set_last_arrested_player g0 (name (player_list g ! t))) = Returns g1"
      "map name (player_list g0) = map name (player_list g)" "current_turn g0 = current_turn g"
    by (auto simp add: records_arrest_def)
  let ?gA = "set_last_arrested_player g0 (name (player_list g ! t))"
  have len: "length (player_list g0) = length (player_list g)"
    using g0(2) by (metis length_map)
  have rA: "turn_in_range ?gA"
    using assms(2) g0(3) len by (auto simp add: turn_in_range_def set_last_arrested_player_def)
  from turn_end_names [OF rA g0(1)]
  have la: "last_arrested_player g1 = name (player_list g ! t)"
    and nm: "map name (player_list g1) = map name (player_list g)"
    using g0(2) by (simp_all add: set_last_arrested_player_def)
  have "length (player_list g1) = length (player_list g)" using nm by (metis length_map)
  then have "name (player_list g1 ! t) = map name (player_list g1) ! t"
    using assms(3) by simp
  also have "\<dots> = name (player_list g ! t)" unfolding nm using assms(3) by simp
  finally show ?thesis using la by simp
qed

lemma arrest_repeat_throws:
  assumes "last_arrested_player g = name (player_list g ! t)"
  shows "\<exists>e. arrest g p t = Throws e g"
  using assms by (auto simp add: arrest_def split: option.splits)

text \<open>
  C7. When the recorded last arrest target is the name of participant \<open>t\<close>, an arrest of
  \<open>t\<close> by any participant throws, directly or through the commit, and the state at the
  throw is the state before the call: balances, record and turn are untouched. A
  successful arrest of \<open>t\<close> leaves \<open>t\<close> recorded, so the arrest of \<open>t\<close> that follows it
  fails in this way whoever attempts it.
\<close>

theorem repeated_arrest_fails:
  "(last_arrested_player g = name (player_list g ! t) \<longrightarrow>
      (\<exists>e. arrest g p t = Throws e g) \<and> (\<exists>e. performAction g ''Arrest'' p (Some t) = Throws e g))
   \<and> (turn_in_range g \<and> t < length (player_list g) \<and> arrest g q t = Returns g1 \<longrightarrow>
        last_arrested_player g1 = name (player_list g1 ! t)
        \<and> (\<exists>e. arrest g1 p t = Throws e g1))"
proof (intro conjI impI)
  assume "last_arrested_player g = name (player_list g ! t)"
  then show "\<exists>e. arrest g p t = Throws e g" by (rule arrest_repeat_throws)
  then show "\<exists>e. performAction g ''Arrest'' p (Some t) = Throws e g"
    by (simp add: performAction_def)
next
  assume h: "turn_in_range g \<and> t < length (player_list g) \<and> arrest g q t = Returns g1"
  then show rec: "last_arrested_player g1 = name (player_list g1 ! t)"
    using arrest_recorded by blast
  then show "\<exists>e. arrest g1 p t = Throws e g1" by (rule arrest_repeat_throws)
qed

theorem repeated_arrest_fails_witness:
  "turn_in_range three_seats \<and> 2 < length (player_list three_seats)
   \<and> (\<exists>g1. arrest three_seats 0 2 = Returns g1
          \<and> last_arrested_player g1 = name (player_list g1 ! 2)
          \<and> current_turn g1 = 1
          \<and> (\<exists>e. arrest g1 1 2 = Throws e g1)
          \<and> (\<exists>e. performAction g1 ''Arrest'' 1 (Some 2) = Throws e g1))"
proof -
  have r: "turn_in_range three_seats" and l: "2 < length (player_list three_seats)"
    by (simp_all add: turn_in_range_def three_seats_def state_defs)
  obtain g1 where g1: "arrest three_seats 0 2 = Returns g1" "current_turn g1 = 1"
    by (simp add: three_seats_def state_defs arrest_def engine_defs)
  from repeated_arrest_fails [of three_seats 2 1 0 g1] r l g1
  have rec: "last_arrested_player g1 = name (player_list g1 ! 2)" by simp
  from repeated_arrest_fails [of g1 2 1] rec
  have "(\<exists>e. arrest g1 1 2 = Throws e g1)
      \<and> (\<exists>e. performAction g1 ''Arrest'' 1 (Some 2) = Throws e g1)" by blast
  with r l g1 rec show ?thesis by blast
qed

section \<open>Sanctioning a Baron\<close>

text \<open>
  C8. A committed sanction on a Baron, in a state with the coins in range, gives the Baron
  1 coin and costs the actor 3. The treasury has gained 2 when the call returns, unless
  the sanction ended the turn and the next seat, a Merchant other than the two, took its
  turn-begin coin, in which case it has gained 1.
\<close>

theorem baron_compensation:
  assumes "sanction g p t = Returns g'" "role (player_list g ! t) = Baron" "turn_in_range g"
    "coins_in_range g" "t < length (player_list g)"
  shows "coins (player_list g' ! t) = coins (player_list g ! t) + 1
     \<and> coins (player_list g' ! p) = coins (player_list g ! p) - 3
     \<and> (treasury g' = treasury g + 2
        \<or> treasury g' = treasury g + 1 \<and> current_turn g' \<noteq> p \<and> current_turn g' \<noteq> t
          \<and> role (player_list g' ! current_turn g') = Merchant
          \<and> coins (player_list g' ! current_turn g') = coins (player_list g ! current_turn g') + 1)"
proof -
  let ?ps1 = "(player_list g)[p := (player_list g ! p)\<lparr>coins := coins (player_list g ! p) - 3\<rparr>]"
  let ?ps2 = "?ps1[t := (?ps1 ! t)\<lparr>coins := coins (player_list g ! t) + 1\<rparr>]"
  let ?g1 = "set_sanctioned (g\<lparr>player_list := ?ps2, treasury := treasury g + 3 - 1\<rparr>) t True"
  from assms(1,2) have va: "validate_action g p = None" and tp: "t \<noteq> p"
    and c3: "3 \<le> coins (player_list g ! p)"
    by (auto simp add: sanction_def validate_coins_def Let_def split: option.splits if_splits)
  from va assms(3) have p: "p < length (player_list g)" "current_turn g = p"
    using validate_action_None by blast+
  note b = coin_bounds [OF assms(4) p(1)] and bt = coin_bounds [OF assms(4,5)]
    and b2 = coin_bounds2 [OF assms(4) p(1) assms(5)]
  have i1: "int32 (coins (player_list g ! p) - 3) = coins (player_list g ! p) - 3"
    using b c3 by (intro int32_id) simp_all
  have i2: "int32 (treasury g + 3) = treasury g + 3" using b c3 by (intro int32_id) simp_all
  have i3: "int32 (coins (player_list g ! t) + 1) = coins (player_list g ! t) + 1"
    using b bt b2 tp c3 by (intro int32_id) simp_all
  from assms(1,2) va tp c3 b(2) have run: "consume_and_advance ?g1 = Returns g'"
    by (auto simp add: sanction_def effect_defs validate_coins_def Let_def i1 i2 i3
        split: option.splits if_splits)
  have r1: "turn_in_range ?g1" using assms(3) by (simp add: turn_in_range_def set_sanctioned_def)
  have c1: "coins (player_list ?g1 ! i) =
      (if i = p then coins (player_list g ! p) - 3
       else if i = t then coins (player_list g ! t) + 1 else coins (player_list g ! i))"
    and ro1: "role (player_list ?g1 ! i) = role (player_list g ! i)"
    if "i < length (player_list g)" for i
    using that p tp assms(5) by (auto simp add: set_sanctioned_def nth_list_update)
  have t1: "treasury ?g1 = treasury g + 2" and l1: "length (player_list ?g1) = length (player_list g)"
    and ct1: "current_turn ?g1 = p" and p1: "p < length (player_list ?g1)"
    using p by (simp_all add: set_sanctioned_def)
  have s1: "sum_list (map coins (player_list ?g1)) = sum_list (map coins (player_list g)) - 2"
    using p assms(5) tp by (simp add: set_sanctioned_def sum_coins_update nth_list_update)
  have in1: "coins_in_range ?g1"
    using assms(4) c1 c3 t1 l1 s1 unfolding coins_in_range_def total_coins_def by auto
  from turn_end_pays [OF run r1 in1 ct1 p1] show ?thesis
  proof
    assume "(\<forall>i < length (player_list ?g1). coins (player_list g' ! i) = coins (player_list ?g1 ! i))
           \<and> treasury g' = treasury ?g1"
    then have "coins (player_list g' ! p) = coins (player_list ?g1 ! p)"
      "coins (player_list g' ! t) = coins (player_list ?g1 ! t)" "treasury g' = treasury ?g1"
      using p(1) assms(5) l1 by simp_all
    with c1 [OF p(1)] c1 [OF assms(5)] tp t1 show ?thesis by simp
  next
    assume h: "(\<forall>i < length (player_list ?g1). i \<noteq> current_turn g' \<longrightarrow>
              coins (player_list g' ! i) = coins (player_list ?g1 ! i))
           \<and> treasury g' = treasury ?g1 - 1 \<and> current_turn g' \<noteq> p
           \<and> current_turn g' < length (player_list ?g1)
           \<and> role (player_list ?g1 ! current_turn g') = Merchant
           \<and> role (player_list g' ! current_turn g') = Merchant
           \<and> coins (player_list g' ! current_turn g') = coins (player_list ?g1 ! current_turn g') + 1"
    then have n: "current_turn g' < length (player_list g)" "current_turn g' \<noteq> p"
      using l1 by simp_all
    have nt: "current_turn g' \<noteq> t" using h ro1 [OF n(1)] assms(2) by auto
    from h p(1) assms(5) n nt l1 have "coins (player_list g' ! p) = coins (player_list ?g1 ! p)"
      "coins (player_list g' ! t) = coins (player_list ?g1 ! t)" by simp_all
    with h c1 [OF p(1)] c1 [OF assms(5)] c1 [OF n(1)] n(2) nt tp t1 show ?thesis by simp
  qed
qed

theorem baron_compensation_witness:
  "role (player_list scenario_c ! 1) = Baron \<and> turn_in_range scenario_c
   \<and> 0 \<le> treasury scenario_c \<and> total_coins scenario_c = 54
   \<and> 1 < length (player_list scenario_c)
   \<and> (\<exists>g'. sanction scenario_c 0 1 = Returns g'
          \<and> coins (player_list g' ! 1) = coins (player_list scenario_c ! 1) + 1
          \<and> coins (player_list g' ! 0) = coins (player_list scenario_c ! 0) - 3
          \<and> treasury g' = treasury scenario_c + 2)"
proof -
  have b: "role (player_list scenario_c ! 1) = Baron" and r: "turn_in_range scenario_c"
    and t: "0 \<le> treasury scenario_c" "total_coins scenario_c = 54"
    and l: "1 < length (player_list scenario_c)"
    and t50: "treasury scenario_c = 50"
    by (simp_all add: turn_in_range_def total_coins_def scenario_c_def state_defs)
  have c: "coins_in_range scenario_c"
    by (simp add: coins_in_range_def total_coins_def scenario_c_def state_defs less_Suc_eq)
  obtain g' where g': "sanction scenario_c 0 1 = Returns g'" "treasury g' = 52"
    by (simp add: scenario_c_def state_defs sanction_def engine_defs)
  from baron_compensation [OF g'(1) b r c l]
  have "coins (player_list g' ! 1) = coins (player_list scenario_c ! 1) + 1
          \<and> coins (player_list g' ! 0) = coins (player_list scenario_c ! 0) - 3" by blast
  with b r t l g' t50 show ?thesis by simp
qed

end
